theory Spec2Isabelle
  imports Complex_Main
begin

section \<open>The central-body surface engine (Source/Scene/CentralBodySurface.js)\<close>

text \<open>
  A shallow embedding of the parts of \<^verbatim>\<open>CentralBodySurface.js\<close> that select tiles, pump
  the tile load queue, react to imagery-layer events and assemble draw commands.

  JavaScript objects that are shared and mutated (tiles, imagery) live in explicit heaps
  indexed by references. Objects owned by exactly one array (a \<^verbatim>\<open>TileImagery\<close> in a
  tile's imagery stack, a pooled command or uniform map) are values inside that array.
  A JavaScript exception is an \<open>Inl\<close> result. JavaScript numbers are idealised as reals.
\<close>

subsection \<open>JavaScript arrays\<close>

text \<open>
  An array whose slots may hold \<^verbatim>\<open>undefined\<close> is a list of options. Reading past the end
  yields \<^verbatim>\<open>undefined\<close>, writing past the end pads with holes, assigning \<^verbatim>\<open>length\<close>
  truncates or pads.
\<close>

type_synonym 'a js_array = "'a option list"

definition js_get :: "'a js_array \<Rightarrow> nat \<Rightarrow> 'a option" where
  "js_get xs i = (if i < length xs then xs ! i else None)"

definition js_put :: "'a js_array \<Rightarrow> nat \<Rightarrow> 'a option \<Rightarrow> 'a js_array" where
  "js_put xs i v =
     (if i < length xs then xs[i := v]
      else xs @ replicate (i - length xs) None @ [v])"

definition js_set_length :: "'a js_array \<Rightarrow> nat \<Rightarrow> 'a js_array" where
  "js_set_length xs n = take n xs @ replicate (n - length xs) None"

text \<open>
  \<^verbatim>\<open>Array.prototype.splice(start, deleteCount, item...)\<close> on an array without holes:
  a negative \<open>start\<close> counts from the end, both arguments are clamped to the array.
  The result is the array after the call and the removed elements.
\<close>

definition js_splice :: "'a list \<Rightarrow> int \<Rightarrow> int \<Rightarrow> 'a list \<Rightarrow> 'a list \<times> 'a list" where
  "js_splice xs start deleteCount items =
     (let len = int (length xs);
          s = (if start < 0 then max (len + start) 0 else min start len);
          d = min (max deleteCount 0) (len - s)
      in (take (nat s) xs @ items @ drop (nat (s + d)) xs,
          take (nat d) (drop (nat s) xs)))"

datatype js_error = TypeError | DeveloperError string

subsection \<open>Data model\<close>

datatype ImageryState =
  PLACEHOLDER | UNLOADED | TRANSITIONING | RECEIVED | TEXTURE_LOADED | READY | FAILED | INVALID

datatype TileState =
  T_UNLOADED | T_TRANSITIONING | T_RECEIVED | T_TRANSFORMED | T_READY | T_FAILED

type_synonym imagery_ref = nat
type_synonym layer_ref = nat
type_synonym tile_ref = "nat \<times> nat \<times> nat"
type_synonym texture = nat
type_synonym cartesian4 = "real \<times> real \<times> real \<times> real"

text \<open>
  An \<^verbatim>\<open>Imagery\<close> of a layer's pyramid. The class itself is outside this file; the fields
  are the ones \<^verbatim>\<open>CentralBodySurface.js\<close> reads and writes.
\<close>

record Imagery =
  state :: ImageryState
  parent :: "imagery_ref option"
  imageryLayer :: layer_ref
  texture :: "texture option"
  referenceCount :: int
  imageryX :: int
  imageryY :: int
  imageryLevel :: int

record TileImagery =
  imagery :: imagery_ref
  originalImagery :: "imagery_ref option"
  textureTranslationAndScale :: "cartesian4 option"
  textureCoordinateExtent :: "cartesian4 option"

text \<open>
  What the surface reads of an imagery layer: its \<^verbatim>\<open>alpha\<close>, whether its provider
  \<^verbatim>\<open>isReady()\<close>, and the provider's optional \<^verbatim>\<open>getIntensity\<close>.
\<close>

record ImageryLayer =
  alpha :: real
  providerReady :: bool
  getIntensity :: "(int \<Rightarrow> int \<Rightarrow> int \<Rightarrow> real) option"

type_synonym imagery_heap = "imagery_ref \<Rightarrow> Imagery"
type_synonym layers = "layer_ref \<Rightarrow> ImageryLayer"

type_synonym cartesian3 = "real \<times> real \<times> real"

record Extent =
  west :: real
  south :: real
  east :: real
  north :: real

text \<open>
  A \<^verbatim>\<open>Tile\<close> of the terrain quadtree, with the fields this file reads and writes. A tile
  is referred to by its identity \<open>(level, x, y)\<close> in the tiling scheme, so \<^verbatim>\<open>tile.level\<close> is
  the first component of its reference. \<^verbatim>\<open>tile.state\<close> is \<open>tileState\<close> and the imagery
  stack \<^verbatim>\<open>tile.imagery\<close> is \<open>tileImagery\<close>; \<open>children\<close> is \<open>None\<close> until
  \<^verbatim>\<open>getChildren()\<close> has created them; \<open>occludeePointInScaledSpace\<close> is what
  \<^verbatim>\<open>getOccludeePointInScaledSpace()\<close> returns.
  The relative-to-center transform, the projected extent and the Mercator data that the
  command assembler writes to the uniform map depend on matrix and projection libraries
  outside this file and on \<^verbatim>\<open>Float32Array\<close> rounding; they are one uninterpreted value
  \<open>geometry\<close> per tile.
\<close>

record Tile =
  extent :: Extent
  tileState :: TileState
  tileImagery :: "TileImagery list"
  renderable :: bool
  doneLoading :: bool
  children :: "tile_ref list option"
  distance :: real
  vertexArray :: "nat option"
  geometry :: nat
  southwestCornerCartesian :: cartesian3
  northeastCornerCartesian :: cartesian3
  westNormal :: cartesian3
  southNormal :: cartesian3
  eastNormal :: cartesian3
  northNormal :: cartesian3
  maxHeight :: real
  boundingSphere3D :: nat
  occludeePointInScaledSpace :: "cartesian3 option"

definition level :: "tile_ref \<Rightarrow> nat" where
  "level t = fst t"

type_synonym tile_heap = "tile_ref \<Rightarrow> Tile"

subsection \<open>The command assembler: \<^verbatim>\<open>createRenderCommandsForSelectedTiles\<close>\<close>


record UniformMap =
  merged :: "string \<rightharpoonup> nat"
  tileGeometry :: "nat option"
  dayTextures :: "texture js_array"
  dayTextureTranslationAndScale :: "cartesian4 js_array"
  dayTextureTexCoordsExtent :: "cartesian4 js_array"
  dayTextureAlpha :: "real js_array"
  dayIntensity :: real

record Command =
  shaderProgram :: "nat option"
  commandVertexArray :: "nat option"
  uniformMap :: "UniformMap option"

record Assembler =
  tileCommands :: "Command js_array"
  tileCommandUniformMaps :: "UniformMap js_array"
  tileCommandIndex :: int
  colorCommandList :: "Command list"

definition createTileUniformMap :: UniformMap where
  "createTileUniformMap =
     \<lparr> merged = Map.empty, tileGeometry = None, dayTextures = [],
       dayTextureTranslationAndScale = [], dayTextureTexCoordsExtent = [],
       dayTextureAlpha = [], dayIntensity = 0 \<rparr>"

definition newCommand :: Command where
  "newCommand = \<lparr> shaderProgram = None, commandVertexArray = None, uniformMap = None \<rparr>"

text \<open>
  \<^verbatim>\<open>mergeUniformMap\<close> copies the own properties of the central body's uniform map. They
  are taken to be named differently from the data fields of the tile uniform map.
\<close>

definition mergeUniformMap :: "UniformMap \<Rightarrow> (string \<rightharpoonup> nat) \<Rightarrow> UniformMap" where
  "mergeUniformMap target source = target\<lparr>merged := merged target ++ source\<rparr>"

text \<open>
  The inner \<^verbatim>\<open>while (numberOfDayTextures < maxTextures && imageryIndex < imageryLen)\<close>.
  The list argument is the part of the imagery stack from \<^verbatim>\<open>imageryIndex\<close> on; the result
  holds \<^verbatim>\<open>numberOfDayTextures\<close>, the uniform map and the part of the stack not yet visited.
\<close>

fun packDayTextures ::
  "nat \<Rightarrow> imagery_heap \<Rightarrow> layers \<Rightarrow> nat \<Rightarrow> UniformMap \<Rightarrow> TileImagery list
     \<Rightarrow> nat \<times> UniformMap \<times> TileImagery list" where
  "packDayTextures maxTextures H L numberOfDayTextures um [] = (numberOfDayTextures, um, [])"
| "packDayTextures maxTextures H L numberOfDayTextures um (ti # rest) =
     (if numberOfDayTextures < maxTextures then
        (if state (H (imagery ti)) \<noteq> READY then
           packDayTextures maxTextures H L numberOfDayTextures um rest
         else
           packDayTextures maxTextures H L (numberOfDayTextures + 1)
             (um\<lparr> dayTextures :=
                    js_put (dayTextures um) numberOfDayTextures (texture (H (imagery ti))),
                  dayTextureTranslationAndScale :=
                    js_put (dayTextureTranslationAndScale um) numberOfDayTextures
                      (textureTranslationAndScale ti),
                  dayTextureTexCoordsExtent :=
                    js_put (dayTextureTexCoordsExtent um) numberOfDayTextures
                      (textureCoordinateExtent ti),
                  dayTextureAlpha :=
                    js_put (dayTextureAlpha um) numberOfDayTextures
                      (Some (alpha (L (imageryLayer (H (imagery ti)))))) \<rparr>)
             rest)
      else (numberOfDayTextures, um, ti # rest))"

text \<open>The intensity chosen by the provider of the first \<^verbatim>\<open>TileImagery\<close> of the tile.\<close>

definition tileIntensity :: "imagery_heap \<Rightarrow> layers \<Rightarrow> TileImagery list \<Rightarrow> real" where
  "tileIntensity H L tileImageryCollection =
     (case tileImageryCollection of
        [] \<Rightarrow> 0
      | ti # _ \<Rightarrow>
          (let firstImagery = H (imagery ti)
           in case getIntensity (L (imageryLayer firstImagery)) of
                None \<Rightarrow> 0
              | Some f \<Rightarrow> f (imageryX firstImagery) (imageryY firstImagery) (imageryLevel firstImagery)))"

text \<open>
  One pass of the \<^verbatim>\<open>do { ... } while (imageryIndex < imageryLen)\<close> body: take the next
  pooled command (creating command and uniform map when the pool slot is
  \<^verbatim>\<open>undefined\<close>), fill the uniform map, pack textures, trim \<^verbatim>\<open>dayTextures\<close> and push
  the command. A pooled command whose uniform-map slot is \<^verbatim>\<open>undefined\<close> makes the first
  property write raise.
\<close>

definition emitCommand ::
  "nat \<Rightarrow> imagery_heap \<Rightarrow> layers \<Rightarrow> (string \<rightharpoonup> nat) \<Rightarrow> nat \<Rightarrow> Tile \<Rightarrow> Assembler
     \<Rightarrow> TileImagery list \<Rightarrow> js_error + (Assembler \<times> TileImagery list)" where
  "emitCommand maxTextures H L centralBodyUniformMap shader tile a rest =
     (let idx = tileCommandIndex a + 1;
          a1 = (case js_get (tileCommands a) (nat idx) of
                  None \<Rightarrow>
                    a\<lparr> tileCommands := js_put (tileCommands a) (nat idx) (Some newCommand),
                       tileCommandUniformMaps :=
                         js_put (tileCommandUniformMaps a) (nat idx) (Some createTileUniformMap) \<rparr>
                | Some c \<Rightarrow> a)
      in case js_get (tileCommandUniformMaps a1) (nat idx) of
           None \<Rightarrow> Inl TypeError
         | Some um0 \<Rightarrow>
             (let um1 = (mergeUniformMap um0 centralBodyUniformMap)
                          \<lparr> tileGeometry := Some (geometry tile),
                            dayIntensity := tileIntensity H L (tileImagery tile) \<rparr>;
                  (numberOfDayTextures, um2, rest') = packDayTextures maxTextures H L 0 um1 rest;
                  um3 = um2\<lparr> dayTextures := js_set_length (dayTextures um2) numberOfDayTextures \<rparr>;
                  command = \<lparr> shaderProgram = Some shader,
                              commandVertexArray = vertexArray tile,
                              uniformMap = Some um3 \<rparr>
              in Inr (a1\<lparr> tileCommands := js_put (tileCommands a1) (nat idx) (Some command),
                          tileCommandUniformMaps :=
                            js_put (tileCommandUniformMaps a1) (nat idx) (Some um3),
                          tileCommandIndex := idx,
                          colorCommandList := colorCommandList a1 @ [command] \<rparr>,
                      rest')))"

text \<open>
  The \<^verbatim>\<open>do ... while\<close> loop of one tile. With \<open>maxTextures = 0\<close> and a non-empty stack the
  loop never advances \<^verbatim>\<open>imageryIndex\<close> and does not return: that is the value \<open>None\<close>.
\<close>

partial_function (option) emitTileCommands ::
  "nat \<Rightarrow> imagery_heap \<Rightarrow> layers \<Rightarrow> (string \<rightharpoonup> nat) \<Rightarrow> nat \<Rightarrow> Tile \<Rightarrow> Assembler
     \<Rightarrow> TileImagery list \<Rightarrow> (js_error + Assembler) option" where
  "emitTileCommands maxTextures H L centralBodyUniformMap shader tile a rest =
     (case emitCommand maxTextures H L centralBodyUniformMap shader tile a rest of
        Inl e \<Rightarrow> Some (Inl e)
      | Inr (a', rest') \<Rightarrow>
          (if rest' \<noteq> [] then
             emitTileCommands maxTextures H L centralBodyUniformMap shader tile a' rest'
           else Some (Inr a')))"

text \<open>The tiles of one bucket, already sorted by \<^verbatim>\<open>tile.distance\<close>.\<close>

fun emitTileSet ::
  "nat \<Rightarrow> tile_heap \<Rightarrow> imagery_heap \<Rightarrow> layers \<Rightarrow> (string \<rightharpoonup> nat) \<Rightarrow> nat \<Rightarrow> tile_ref list
     \<Rightarrow> Assembler \<Rightarrow> (js_error + Assembler) option" where
  "emitTileSet maxTextures T H L centralBodyUniformMap shader [] a = Some (Inr a)"
| "emitTileSet maxTextures T H L centralBodyUniformMap shader (t # ts) a =
     (case emitTileCommands maxTextures H L centralBodyUniformMap shader (T t) a
             (tileImagery (T t)) of
        None \<Rightarrow> None
      | Some (Inl e) \<Rightarrow> Some (Inl e)
      | Some (Inr a') \<Rightarrow> emitTileSet maxTextures T H L centralBodyUniformMap shader ts a')"

text \<open>
  \<^verbatim>\<open>tileSet.sort(tileDistanceSortFunction)\<close>: ascending by \<^verbatim>\<open>tile.distance\<close>. The order
  among tiles at equal distance is left to the JavaScript engine; the stable one is taken.
\<close>

definition sortTileSet :: "tile_heap \<Rightarrow> tile_ref list \<Rightarrow> tile_ref list" where
  "sortTileSet T tileSet = sort_key (\<lambda>t. distance (T t)) tileSet"

text \<open>
  The loop over \<^verbatim>\<open>tilesToRenderByTextureCount\<close>, from bucket \<open>tileSetIndex\<close> on. The shader
  program is \<^verbatim>\<open>shaderSet.getShaderProgram(context, tileSetIndex)\<close>, represented by its index.
  The result holds the buckets as the in-place sort leaves them.
\<close>

fun emitTileSets ::
  "nat \<Rightarrow> tile_heap \<Rightarrow> imagery_heap \<Rightarrow> layers \<Rightarrow> (string \<rightharpoonup> nat) \<Rightarrow> nat
     \<Rightarrow> tile_ref list js_array \<Rightarrow> Assembler
     \<Rightarrow> (js_error + Assembler \<times> tile_ref list js_array) option" where
  "emitTileSets maxTextures T H L centralBodyUniformMap tileSetIndex [] a = Some (Inr (a, []))"
| "emitTileSets maxTextures T H L centralBodyUniformMap tileSetIndex (tileSet # sets) a =
     (case tileSet of
        None \<Rightarrow>
          map_option (map_sum id (\<lambda>(a', sets'). (a', None # sets')))
            (emitTileSets maxTextures T H L centralBodyUniformMap (tileSetIndex + 1) sets a)
      | Some ts \<Rightarrow>
          (if ts = [] then
             map_option (map_sum id (\<lambda>(a', sets'). (a', Some [] # sets')))
               (emitTileSets maxTextures T H L centralBodyUniformMap (tileSetIndex + 1) sets a)
           else
             (case emitTileSet maxTextures T H L centralBodyUniformMap tileSetIndex
                     (sortTileSet T ts) a of
                None \<Rightarrow> None
              | Some (Inl e) \<Rightarrow> Some (Inl e)
              | Some (Inr a') \<Rightarrow>
                  map_option (map_sum id (\<lambda>(a'', sets'). (a'', Some (sortTileSet T ts) # sets')))
                    (emitTileSets maxTextures T H L centralBodyUniformMap (tileSetIndex + 1)
                       sets a'))))"

text \<open>
  \<^verbatim>\<open>createRenderCommandsForSelectedTiles\<close>: \<^verbatim>\<open>tileCommandIndex\<close> starts at \<open>-1\<close>, every
  selected tile emits its commands, and the command pool is cut to
  \<^verbatim>\<open>Math.max(0, tileCommandIndex)\<close>. The pools and the caller's \<^verbatim>\<open>colorCommandList\<close>
  come in through the \<open>Assembler\<close>.
\<close>

definition createRenderCommandsForSelectedTiles ::
  "nat \<Rightarrow> tile_heap \<Rightarrow> imagery_heap \<Rightarrow> layers \<Rightarrow> (string \<rightharpoonup> nat) \<Rightarrow> tile_ref list js_array
     \<Rightarrow> Assembler \<Rightarrow> (js_error + Assembler \<times> tile_ref list js_array) option" where
  "createRenderCommandsForSelectedTiles maxTextures T H L centralBodyUniformMap
       tilesToRenderByTextureCount a =
     (case emitTileSets maxTextures T H L centralBodyUniformMap 0 tilesToRenderByTextureCount
             (a\<lparr>tileCommandIndex := -1\<rparr>) of
        None \<Rightarrow> None
      | Some (Inl e) \<Rightarrow> Some (Inl e)
      | Some (Inr (a', sets')) \<Rightarrow>
          Some (Inr (a'\<lparr> tileCommands :=
                          js_set_length (tileCommands a') (nat (max 0 (tileCommandIndex a'))) \<rparr>,
                     sets')))"

subsection \<open>Specification vocabulary for the command assembler\<close>

text \<open>An entry of the imagery stack is ready when its imagery is in state \<open>READY\<close>.\<close>

definition isReady :: "imagery_heap \<Rightarrow> TileImagery \<Rightarrow> bool" where
  "isReady H ti = (state (H (imagery ti)) = READY)"

definition readyCount :: "imagery_heap \<Rightarrow> TileImagery list \<Rightarrow> nat" where
  "readyCount H tis = length (filter (isReady H) tis)"

text \<open>
  The entries that one run of the inner \<^verbatim>\<open>while\<close> visits, started with
  \<open>n\<close> textures already packed: it stops in front of the first entry it meets with the
  command full.
\<close>

fun packedPrefix :: "nat \<Rightarrow> imagery_heap \<Rightarrow> nat \<Rightarrow> TileImagery list \<Rightarrow> TileImagery list" where
  "packedPrefix m H n [] = []"
| "packedPrefix m H n (ti # rest) =
     (if n < m then ti # packedPrefix m H (if isReady H ti then n + 1 else n) rest else [])"

definition textureOf :: "imagery_heap \<Rightarrow> TileImagery \<Rightarrow> texture option" where
  "textureOf H ti = texture (H (imagery ti))"

text \<open>
  Every pooled command has a pooled uniform map at the same index. The function creates
  both together and truncates only the command pool, so the pools it leaves are consistent.
\<close>

definition poolsConsistent :: "Assembler \<Rightarrow> bool" where
  "poolsConsistent a =
     list_all (\<lambda>i. js_get (tileCommands a) i \<noteq> None \<longrightarrow> js_get (tileCommandUniformMaps a) i \<noteq> None)
       [0..<length (tileCommands a)]"

text \<open>
  The number of passes of the \<^verbatim>\<open>do ... while\<close> loop over a stack: one pass per
  full batch of \<open>m\<close> ready entries, a last pass for a partial batch, and a pass without
  textures when entries are left behind the last full batch.
\<close>

definition commandCount :: "nat \<Rightarrow> imagery_heap \<Rightarrow> TileImagery list \<Rightarrow> nat" where
  "commandCount m H tis =
     (let k = readyCount H tis
      in if k = 0 then 1
         else (k + m - 1) div m + (if k mod m = 0 \<and> \<not> isReady H (last tis) then 1 else 0))"

text \<open>
  The command \<open>c\<close> carries a uniform map whose \<^verbatim>\<open>dayTextures\<close> are exactly the textures
  of the ready entries of one contiguous run \<open>visited\<close> of the stack, at most \<open>m\<close> of them.
\<close>

definition packedFrom :: "nat \<Rightarrow> imagery_heap \<Rightarrow> TileImagery list \<Rightarrow> Command \<Rightarrow> bool" where
  "packedFrom m H stack c =
     (\<exists>um pre visited post. uniformMap c = Some um \<and> stack = pre @ visited @ post
        \<and> dayTextures um = map (textureOf H) (filter (isReady H) visited)
        \<and> length (dayTextures um) \<le> m)"

text \<open>
  \<open>extends a cs a'\<close>: from \<open>a\<close> the commands \<open>cs\<close> were pushed in this order, each into the
  next pool slot, and no other slot of the two pools changed.
\<close>

definition extends :: "Assembler \<Rightarrow> Command list \<Rightarrow> Assembler \<Rightarrow> bool" where
  "extends a cs a' =
     (let n0 = nat (tileCommandIndex a + 1)
      in colorCommandList a' = colorCommandList a @ cs
       \<and> tileCommandIndex a' = tileCommandIndex a + int (length cs)
       \<and> (\<forall>k. js_get (tileCommands a') k =
              (if n0 \<le> k \<and> k < n0 + length cs then Some (cs ! (k - n0))
               else js_get (tileCommands a) k))
       \<and> (\<forall>k. js_get (tileCommandUniformMaps a') k =
              (if n0 \<le> k \<and> k < n0 + length cs then uniformMap (cs ! (k - n0))
               else js_get (tileCommandUniformMaps a) k)))"

definition commandTextures :: "Command \<Rightarrow> texture js_array" where
  "commandTextures c = (case uniformMap c of None \<Rightarrow> [] | Some um \<Rightarrow> dayTextures um)"

definition selectedTiles :: "tile_ref list js_array \<Rightarrow> tile_ref set" where
  "selectedTiles sets = (\<Union>ts \<in> set sets. case ts of None \<Rightarrow> {} | Some l \<Rightarrow> set l)"

text \<open>
  The runs of a stack that the passes of the \<^verbatim>\<open>do ... while (imageryIndex < imageryLen)\<close>
  loop visit, in order: each pass visits the \<open>packedPrefix\<close> of what is left, and the loop
  goes on while entries are left. Without a texture unit a pass visits nothing.
\<close>

function batches :: "nat \<Rightarrow> imagery_heap \<Rightarrow> TileImagery list \<Rightarrow> TileImagery list list" where
  "batches m H stack =
     (let visited = packedPrefix m H 0 stack;
          rest = drop (length visited) stack
      in if rest = [] \<or> m = 0 then [visited] else visited # batches m H rest)"
  by pat_completeness auto
termination
  apply (relation "measure (\<lambda>(m, H, stack). length stack)")
   apply auto
  apply (case_tac stack)
   apply auto
  done

text \<open>The textures a pass packs: those of the ready entries of its run, in order.\<close>

definition batchTextures :: "imagery_heap \<Rightarrow> TileImagery list \<Rightarrow> texture js_array" where
  "batchTextures H visited = map (textureOf H) (filter (isReady H) visited)"

text \<open>
  The passes of a frame, in order: the buckets by index, the tiles of a bucket as the sort
  leaves them, and the runs of each tile's stack. A pass is the tile it draws and the run it
  visits.
\<close>

definition renderOrder :: "tile_ref list js_array \<Rightarrow> tile_ref list" where
  "renderOrder sets = concat (map (\<lambda>ts. case ts of None \<Rightarrow> [] | Some l \<Rightarrow> l) sets)"

definition tilePasses ::
  "nat \<Rightarrow> imagery_heap \<Rightarrow> Tile \<Rightarrow> (nat option \<times> texture js_array) list" where
  "tilePasses m H tile =
     map (\<lambda>visited. (vertexArray tile, batchTextures H visited)) (batches m H (tileImagery tile))"

definition framePasses ::
  "nat \<Rightarrow> tile_heap \<Rightarrow> imagery_heap \<Rightarrow> tile_ref list js_array
     \<Rightarrow> (nat option \<times> texture js_array) list" where
  "framePasses m T H sets = concat (map (\<lambda>t. tilePasses m H (T t)) (renderOrder sets))"

text \<open>What a command draws: the vertex array and the textures of its uniform map.\<close>

definition commandPass :: "Command \<Rightarrow> nat option \<times> texture js_array" where
  "commandPass c = (commandVertexArray c, commandTextures c)"

subsection \<open>Concrete inputs\<close>

text \<open>
  Imagery \<open>0\<close> is still unloaded and every other imagery is ready with its own texture;
  a \<open>skeleton\<close> is a fresh \<^verbatim>\<open>TileImagery\<close> for an imagery.
\<close>

definition exampleLayers :: layers where
  "exampleLayers = (\<lambda>_. \<lparr> alpha = 1, providerReady = True, getIntensity = None \<rparr>)"

definition exampleHeap :: imagery_heap where
  "exampleHeap = (\<lambda>r. \<lparr> state = (if r = 0 then UNLOADED else READY), parent = None,
       imageryLayer = 0, texture = (if r = 0 then None else Some r), referenceCount = 1,
       imageryX = 0, imageryY = 0, imageryLevel = 0 \<rparr>)"

definition skeleton :: "imagery_ref \<Rightarrow> TileImagery" where
  "skeleton r = \<lparr> imagery = r, originalImagery = None, textureTranslationAndScale = None,
       textureCoordinateExtent = None \<rparr>"

definition exampleTile :: "TileImagery list \<Rightarrow> Tile" where
  "exampleTile stack =
     \<lparr> extent = \<lparr> west = 0, south = 0, east = 1, north = 1 \<rparr>,
       tileState = T_READY, tileImagery = stack, renderable = True, doneLoading = True,
       children = None, distance = 1, vertexArray = Some 0, geometry = 0,
       southwestCornerCartesian = (0, 0, 0), northeastCornerCartesian = (0, 0, 0),
       westNormal = (0, 0, 0), southNormal = (0, 0, 0), eastNormal = (0, 0, 0),
       northNormal = (0, 0, 0), maxHeight = 0,
       boundingSphere3D = 0, occludeePointInScaledSpace = None \<rparr>"

definition emptyAssembler :: Assembler where
  "emptyAssembler = \<lparr> tileCommands = [], tileCommandUniformMaps = [], tileCommandIndex = -1,
       colorCommandList = [] \<rparr>"

text \<open>
  Pools a larger frame has left behind: one pooled command, whose uniform map still holds
  three textures.
\<close>

definition staleAssembler :: Assembler where
  "staleAssembler =
     \<lparr> tileCommands = [Some newCommand],
       tileCommandUniformMaps =
         [Some (createTileUniformMap\<lparr> dayTextures := [Some 7, Some 8, Some 9] \<rparr>)],
       tileCommandIndex = 0,
       colorCommandList = [] \<rparr>"

text \<open>Observations of a result: commands pushed, and pool length with commands pushed.\<close>

definition commandsPushed :: "(js_error + Assembler) option \<Rightarrow> nat option" where
  "commandsPushed r = (case r of Some (Inr a) \<Rightarrow> Some (length (colorCommandList a)) | _ \<Rightarrow> None)"

definition poolAndPushed :: "(js_error + Assembler \<times> tile_ref list js_array) option \<Rightarrow> (nat \<times> nat) option" where
  "poolAndPushed r =
     (case r of Some (Inr (a, sets)) \<Rightarrow> Some (length (tileCommands a), length (colorCommandList a))
      | _ \<Rightarrow> None)"

text \<open>
  The command count as the specification words it: \<open>\<lceil>readyCount / maxTextureUnits\<rceil>\<close>, at
  least one.
\<close>

definition claimedCommandCount :: "nat \<Rightarrow> imagery_heap \<Rightarrow> TileImagery list \<Rightarrow> nat" where
  "claimedCommandCount m H tis = max 1 ((readyCount H tis + m - 1) div m)"

text \<open>Eight ready entries followed by one entry that is not ready.\<close>

definition trailingStack :: "TileImagery list" where
  "trailingStack = [skeleton 1, skeleton 2, skeleton 3, skeleton 4, skeleton 5, skeleton 6,
                    skeleton 7, skeleton 8, skeleton 0]"

subsection \<open>The surface and its collaborators\<close>

datatype SceneMode = SCENE2D | COLUMBUS_VIEW | SCENE3D | MORPHING

datatype Intersect = OUTSIDE | INTERSECTING | INSIDE

text \<open>
  The state of a \<^verbatim>\<open>CentralBodySurface\<close>. The constructor assigns \<^verbatim>\<open>this._levelZeroTiles\<close>,
  here \<open>private_levelZeroTiles\<close>; the property \<^verbatim>\<open>this.levelZeroTiles\<close>, which
  \<^verbatim>\<open>destroy\<close> reads, is a different property and is \<open>None\<close> while nobody assigns it.
  \<open>clock\<close> counts the calls of \<^verbatim>\<open>Date.now()\<close> so far. The counters of \<^verbatim>\<open>_debug\<close> are
  fields of the surface; its \<^verbatim>\<open>last...\<close> copies and the console output are left out.
\<close>

record Surface =
  maxScreenSpaceError :: real
  imageryLayerCollection :: "layer_ref list"
  private_levelZeroTiles :: "tile_ref list option"
  levelZeroTiles :: "tile_ref list option"
  tiles :: tile_heap
  imageries :: imagery_heap
  tilesToRenderByTextureCount :: "tile_ref list js_array"
  tileTraversalQueue :: "tile_ref list"
  tileLoadQueue :: "tile_ref list"
  loadInsertionPoint :: "tile_ref option"
  tileReplacementQueue :: "tile_ref list"
  clock :: nat
  suspendLodUpdate :: bool
  maxDepth :: nat
  tilesVisited :: nat
  tilesCulled :: nat
  tilesRendered :: nat
  texturesRendered :: nat
  boundingSphereVA :: "nat option"

text \<open>
  The collaborators of the surface, as far as this file calls them: the terrain provider
  (\<open>maxLevel\<close>, \<open>getLevelMaximumGeometricError\<close>, the size of level zero of its tiling scheme,
  and the three loading steps), the imagery layers (\<open>layerTable\<close> and their loading steps),
  the replacement queue's eviction choice and \<^verbatim>\<open>Date.now()\<close>, whose \<open>k\<close>-th call returns
  \<open>now k\<close>. \<open>layerUpdateTiles\<close> is what \<^verbatim>\<open>layer.updateTiles\<close> does to the imagery. The loading steps return synchronously; what a provider completes later
  shows in the heaps of a later frame.
\<close>

record Collaborators =
  maxLevel :: nat
  getLevelMaximumGeometricError :: "nat \<Rightarrow> real"
  numberOfLevelZeroTilesX :: nat
  numberOfLevelZeroTilesY :: nat
  requestTileGeometry :: "Tile \<Rightarrow> Tile"
  transformGeometry :: "Tile \<Rightarrow> Tile"
  createResources :: "Tile \<Rightarrow> Tile"
  layerTable :: layers
  skeletonsFor :: "layer_ref \<Rightarrow> tile_ref \<Rightarrow> imagery_heap \<Rightarrow> TileImagery list \<times> imagery_heap"
  requestImagery :: "layer_ref \<Rightarrow> Imagery \<Rightarrow> Imagery"
  createTexture :: "layer_ref \<Rightarrow> Imagery \<Rightarrow> Imagery"
  reprojectTexture :: "layer_ref \<Rightarrow> Imagery \<Rightarrow> Imagery"
  calculateTextureTranslationAndScale :: "layer_ref \<Rightarrow> Tile \<Rightarrow> TileImagery \<Rightarrow> cartesian4"
  layerUpdateTiles :: "layer_ref \<Rightarrow> imagery_heap \<Rightarrow> imagery_heap"
  evicted :: "nat \<Rightarrow> tile_ref list \<Rightarrow> tile_ref list"
  now :: "nat \<Rightarrow> int"

text \<open>
  A terrain provider's loading step mutates \<^verbatim>\<open>tile.state\<close> and the tile's geometry and
  nothing else of the tile; an imagery layer's loading step mutates \<^verbatim>\<open>imagery.state\<close>
  and \<^verbatim>\<open>imagery.texture\<close>.
\<close>

definition terrainStep :: "(Tile \<Rightarrow> Tile) \<Rightarrow> Tile \<Rightarrow> Tile" where
  "terrainStep f tile =
     (f tile)\<lparr> tileImagery := tileImagery tile, renderable := renderable tile,
               doneLoading := doneLoading tile, children := children tile,
               distance := distance tile \<rparr>"

definition imageryStep :: "(Imagery \<Rightarrow> Imagery) \<Rightarrow> Imagery \<Rightarrow> Imagery" where
  "imageryStep f im = im\<lparr> state := state (f im), texture := texture (f im) \<rparr>"

text \<open>
  Modelled from the spec: \<^verbatim>\<open>Imagery.addReference\<close> and \<^verbatim>\<open>Imagery.releaseReference\<close>
  (Imagery.js is not under src/). Imagery is reference counted; recycling at count zero is
  the layer's business.
\<close>

definition addReference :: "Imagery \<Rightarrow> Imagery" where
  "addReference im = im\<lparr> referenceCount := referenceCount im + 1 \<rparr>"

definition releaseReference :: "Imagery \<Rightarrow> Imagery" where
  "releaseReference im = im\<lparr> referenceCount := referenceCount im - 1 \<rparr>"

text \<open>
  Modelled from the spec: the \<^verbatim>\<open>Tile\<close> constructor and \<^verbatim>\<open>Tile.getChildren\<close> (Tile.js is not
  under src/). A new tile is \<open>Unloaded\<close>, has no imagery and no children and is neither
  renderable nor done loading. \<^verbatim>\<open>getChildren()\<close> creates the four children of the quadtree
  on the first call and returns the same four afterwards.
\<close>

definition newTile :: Tile where
  "newTile =
     \<lparr> extent = \<lparr> west = 0, south = 0, east = 0, north = 0 \<rparr>,
       tileState = T_UNLOADED, tileImagery = [], renderable = False, doneLoading = False,
       children = None, distance = 0, vertexArray = None, geometry = 0,
       southwestCornerCartesian = (0, 0, 0), northeastCornerCartesian = (0, 0, 0),
       westNormal = (0, 0, 0), southNormal = (0, 0, 0), eastNormal = (0, 0, 0),
       northNormal = (0, 0, 0), maxHeight = 0,
       boundingSphere3D = 0, occludeePointInScaledSpace = None \<rparr>"

definition quadChildren :: "tile_ref \<Rightarrow> tile_ref list" where
  "quadChildren t =
     (case t of (l, x, y) \<Rightarrow>
        [(l + 1, 2 * x, 2 * y), (l + 1, 2 * x + 1, 2 * y),
         (l + 1, 2 * x, 2 * y + 1), (l + 1, 2 * x + 1, 2 * y + 1)])"

definition getChildren :: "tile_ref \<Rightarrow> Surface \<Rightarrow> tile_ref list \<times> Surface" where
  "getChildren t s =
     (case children (tiles s t) of
        Some cs \<Rightarrow> (cs, s)
      | None \<Rightarrow>
          (let cs = quadChildren t;
               T1 = fold (\<lambda>c T. T(c := newTile)) cs (tiles s);
               T2 = T1(t := (T1 t)\<lparr> children := Some cs \<rparr>)
           in (cs, s\<lparr> tiles := T2 \<rparr>)))"

text \<open>
  Modelled from the spec: \<^verbatim>\<open>TileLoadQueue\<close> (TileLoadQueue.js is not under src/), an
  intrusive list of tiles. \<^verbatim>\<open>markInsertionPoint()\<close> records the current head;
  \<^verbatim>\<open>insertBeforeInsertionPoint(tile)\<close> moves or inserts the tile immediately before that
  boundary, at the tail when there is none; \<^verbatim>\<open>remove(tile)\<close> unlinks it.
\<close>

definition markInsertionPoint :: "Surface \<Rightarrow> Surface" where
  "markInsertionPoint s =
     s\<lparr> loadInsertionPoint := (case tileLoadQueue s of [] \<Rightarrow> None | h # _ \<Rightarrow> Some h) \<rparr>"

definition insertBeforeInsertionPoint :: "tile_ref \<Rightarrow> Surface \<Rightarrow> Surface" where
  "insertBeforeInsertionPoint t s =
     (if loadInsertionPoint s = Some t then s
      else
        (let q = removeAll t (tileLoadQueue s)
         in case loadInsertionPoint s of
              None \<Rightarrow> s\<lparr> tileLoadQueue := q @ [t] \<rparr>
            | Some b \<Rightarrow>
                s\<lparr> tileLoadQueue :=
                     takeWhile (\<lambda>u. u \<noteq> b) q @ [t] @ dropWhile (\<lambda>u. u \<noteq> b) q \<rparr>))"

definition loadQueueRemove :: "tile_ref \<Rightarrow> Surface \<Rightarrow> Surface" where
  "loadQueueRemove t s =
     s\<lparr> tileLoadQueue := removeAll t (tileLoadQueue s),
        loadInsertionPoint :=
          (if loadInsertionPoint s = Some t
           then (case dropWhile (\<lambda>u. u \<noteq> t) (tileLoadQueue s) of
                   _ # n # _ \<Rightarrow> Some n | _ \<Rightarrow> None)
           else loadInsertionPoint s) \<rparr>"

text \<open>
  Modelled from the spec: \<^verbatim>\<open>TileReplacementQueue\<close> (TileReplacementQueue.js is not under
  src/), the list of resident tiles, most recently used first. \<^verbatim>\<open>markTileRendered\<close>
  unlinks the tile and pushes it to the head. \<^verbatim>\<open>trimTiles(keepCount)\<close> evicts tiles not
  touched in this frame; which ones is the collaborator's choice \<open>evicted\<close>, except that the
  tile just marked rendered carries the current frame stamp and is kept. Eviction releases
  the vertex array, decrements the references of the tile's imagery, clears the children
  and sets the terrain state to \<open>Unloaded\<close>.
\<close>

definition markTileRendered :: "tile_ref \<Rightarrow> Surface \<Rightarrow> Surface" where
  "markTileRendered t s = s\<lparr> tileReplacementQueue := t # removeAll t (tileReplacementQueue s) \<rparr>"

definition evictTile :: "tile_ref \<Rightarrow> Surface \<Rightarrow> Surface" where
  "evictTile u s =
     s\<lparr> tiles := (tiles s)(u := (tiles s u)\<lparr> vertexArray := None, children := None,
                                           tileState := T_UNLOADED \<rparr>),
        imageries := fold (\<lambda>ti H. H(imagery ti := releaseReference (H (imagery ti))))
                       (tileImagery (tiles s u)) (imageries s),
        tileReplacementQueue := removeAll u (tileReplacementQueue s) \<rparr>"

definition trimTiles :: "Collaborators \<Rightarrow> nat \<Rightarrow> tile_ref \<Rightarrow> Surface \<Rightarrow> Surface" where
  "trimTiles env keepCount justRendered s =
     fold evictTile
       (filter (\<lambda>u. u \<noteq> justRendered) (evicted env keepCount (tileReplacementQueue s))) s"

text \<open>
  \<^verbatim>\<open>imageryLayerCollection.get(index)\<close>: the layer at the index, \<^verbatim>\<open>undefined\<close> past the
  end.
\<close>

definition layerAt :: "layer_ref list \<Rightarrow> nat \<Rightarrow> layer_ref option" where
  "layerAt layers i = (if i < length layers then Some (layers ! i) else None)"

text \<open>
  \<^verbatim>\<open>layer.createTileImagerySkeletons(tile, terrainProvider, insertionPoint)\<close>: the layer
  creates the entries \<open>skeletonsFor\<close> gives, inserted at \<open>insertionPoint\<close> or appended when
  there is none, and reports whether it created any.
\<close>

definition createTileImagerySkeletons ::
  "Collaborators \<Rightarrow> layer_ref \<Rightarrow> tile_ref \<Rightarrow> nat option \<Rightarrow> Surface \<Rightarrow> bool \<times> Surface" where
  "createTileImagerySkeletons env layer t insertionPoint s =
     (let (created, H) = skeletonsFor env layer t (imageries s);
          stack = tileImagery (tiles s t);
          stack' = (case insertionPoint of
                      None \<Rightarrow> stack @ created
                    | Some i \<Rightarrow> fst (js_splice stack (int i) 0 created))
      in (created \<noteq> [],
          s\<lparr> tiles := (tiles s)(t := (tiles s t)\<lparr> tileImagery := stack' \<rparr>),
             imageries := H \<rparr>))"

subsection \<open>Construction and destruction\<close>

record Description =
  terrainProvider :: "Collaborators option"
  descriptionImageryLayerCollection :: "layer_ref list option"
  descriptionMaxScreenSpaceError :: "real option"

text \<open>
  \<^verbatim>\<open>tilingScheme.createLevelZeroTiles()\<close>: the tiles \<open>(0, x, y)\<close> of level zero, row by row.
\<close>

definition createLevelZeroTiles :: "Collaborators \<Rightarrow> tile_ref list" where
  "createLevelZeroTiles env =
     concat (map (\<lambda>y. map (\<lambda>x. (0, x, y)) [0..<numberOfLevelZeroTilesX env])
               [0..<numberOfLevelZeroTilesY env])"

definition CentralBodySurface :: "Description \<Rightarrow> imagery_heap \<Rightarrow> js_error + Surface" where
  "CentralBodySurface description H =
     (case terrainProvider description of
        None \<Rightarrow> Inl (DeveloperError ''description.terrainProvider is required.'')
      | Some env \<Rightarrow>
          (case descriptionImageryLayerCollection description of
             None \<Rightarrow> Inl (DeveloperError ''description.imageryLayerCollection is required.'')
           | Some layers \<Rightarrow>
               Inr \<lparr> maxScreenSpaceError =
                       (case descriptionMaxScreenSpaceError description of
                          None \<Rightarrow> 2 | Some e \<Rightarrow> e),
                     imageryLayerCollection = layers,
                     private_levelZeroTiles = Some (createLevelZeroTiles env),
                     levelZeroTiles = None,
                     tiles = (\<lambda>_. newTile),
                     imageries = H,
                     tilesToRenderByTextureCount = [],
                     tileTraversalQueue = [],
                     tileLoadQueue = [],
                     loadInsertionPoint = None,
                     tileReplacementQueue = [],
                     clock = 0,
                     suspendLodUpdate = False,
                     maxDepth = 0, tilesVisited = 0, tilesCulled = 0, tilesRendered = 0,
                     texturesRendered = 0,
                     boundingSphereVA = None \<rparr>))"

text \<open>
  \<^verbatim>\<open>destroy\<close>. The calls it makes are recorded in order; \<^verbatim>\<open>destroyObject(this)\<close> returns
  \<^verbatim>\<open>undefined\<close>, which is the result \<open>Inr\<close> with the calls made. Reading
  \<^verbatim>\<open>levelZeroTiles.length\<close> of an \<^verbatim>\<open>undefined\<close> \<^verbatim>\<open>this.levelZeroTiles\<close> raises.
\<close>

datatype destroy_call =
  TileDestroy tile_ref | TerrainProviderDestroy | ImageryLayerCollectionDestroy
  | BoundingSphereVADestroy | DestroyObject

definition destroy :: "Surface \<Rightarrow> js_error + destroy_call list" where
  "destroy s =
     (case levelZeroTiles s of
        None \<Rightarrow> Inl TypeError
      | Some roots \<Rightarrow>
          Inr (map TileDestroy roots
               @ [TerrainProviderDestroy, ImageryLayerCollectionDestroy]
               @ (case boundingSphereVA s of None \<Rightarrow> [] | Some _ \<Rightarrow> [BoundingSphereVADestroy])
               @ [DestroyObject]))"

subsection \<open>Imagery layer events\<close>

text \<open>
  The scan of \<^verbatim>\<open>moveTileImageryObjects\<close> over the stack from index \<open>i\<close>, with
  \<^verbatim>\<open>(oldTileImageryIndex, newTileImageryIndex, numTileImagery)\<close>; the third branch is the
  \<^verbatim>\<open>break\<close>.
\<close>

fun scanTileImagery ::
  "imagery_heap \<Rightarrow> layer_ref \<Rightarrow> layer_ref option \<Rightarrow> TileImagery list \<Rightarrow> int
     \<Rightarrow> int \<times> int \<times> int \<Rightarrow> int \<times> int \<times> int" where
  "scanTileImagery H layer newNextLayer [] i acc = acc"
| "scanTileImagery H layer newNextLayer (ti # rest) i (oldTileImageryIndex, newTileImageryIndex, numTileImagery) =
     (let tileImageryLayer = imageryLayer (H (imagery ti))
      in if newTileImageryIndex = -1 \<and> Some tileImageryLayer = newNextLayer then
           scanTileImagery H layer newNextLayer rest (i + 1)
             (oldTileImageryIndex, i, numTileImagery)
         else if tileImageryLayer = layer then
           scanTileImagery H layer newNextLayer rest (i + 1)
             (if oldTileImageryIndex = -1 then i else oldTileImageryIndex,
              newTileImageryIndex, numTileImagery + 1)
         else if newTileImageryIndex \<noteq> -1 \<and> oldTileImageryIndex \<noteq> -1 then
           (oldTileImageryIndex, newTileImageryIndex, numTileImagery)
         else
           scanTileImagery H layer newNextLayer rest (i + 1)
             (oldTileImageryIndex, newTileImageryIndex, numTileImagery))"

definition moveTileImageryObjects ::
  "imagery_heap \<Rightarrow> TileImagery list \<Rightarrow> layer_ref \<Rightarrow> layer_ref option \<Rightarrow> TileImagery list" where
  "moveTileImageryObjects H tileImageryCollection layer newNextLayer =
     (let (oldTileImageryIndex, newTileImageryIndex, numTileImagery) =
            scanTileImagery H layer newNextLayer tileImageryCollection 0 (-1, -1, 0);
          (collection1, tileImageryObjects) =
            js_splice tileImageryCollection oldTileImageryIndex numTileImagery [];
          newTileImageryIndex' =
            (if newTileImageryIndex = -1 then int (length collection1) else newTileImageryIndex)
      in fst (js_splice collection1 newTileImageryIndex' 0 tileImageryObjects))"

definition onLayerMoved :: "layer_ref \<Rightarrow> nat \<Rightarrow> nat \<Rightarrow> Surface \<Rightarrow> Surface" where
  "onLayerMoved layer newIndex oldIndex s =
     (case private_levelZeroTiles s of
        None \<Rightarrow> s
      | Some _ \<Rightarrow>
          (let newNextLayer = layerAt (imageryLayerCollection s) (newIndex + 1)
           in fold (\<lambda>t s'. s'\<lparr> tiles := (tiles s')(t := (tiles s' t)
                       \<lparr> tileImagery :=
                           moveTileImageryObjects (imageries s') (tileImagery (tiles s' t))
                             layer newNextLayer \<rparr>) \<rparr>)
                (tileReplacementQueue s) s))"

definition onLayerAdded :: "Collaborators \<Rightarrow> layer_ref \<Rightarrow> nat \<Rightarrow> Surface \<Rightarrow> Surface" where
  "onLayerAdded env layer index s =
     (case private_levelZeroTiles s of
        None \<Rightarrow> s
      | Some _ \<Rightarrow>
          (let newNextLayer = layerAt (imageryLayerCollection s) (index + 1)
           in fold (\<lambda>t s'.
                  (let (created, s1) = createTileImagerySkeletons env layer t None s';
                       s2 = (if created
                             then s1\<lparr> tiles := (tiles s1)(t := (tiles s1 t)\<lparr> doneLoading := False \<rparr>) \<rparr>
                             else s1)
                   in case newNextLayer of
                        None \<Rightarrow> s2
                      | Some n \<Rightarrow>
                          s2\<lparr> tiles := (tiles s2)(t := (tiles s2 t)
                                \<lparr> tileImagery :=
                                    moveTileImageryObjects (imageries s2)
                                      (tileImagery (tiles s2 t)) layer (Some n) \<rparr>) \<rparr>))
                (tileReplacementQueue s) s))"

text \<open>
  The scan of \<^verbatim>\<open>_onLayerRemoved\<close> over one stack from index \<open>i\<close>, with
  \<^verbatim>\<open>(startIndex, numDestroyed)\<close> and the imagery heap, whose references it releases.
\<close>

fun scanRemoved ::
  "layer_ref \<Rightarrow> TileImagery list \<Rightarrow> int \<Rightarrow> int \<times> int \<times> imagery_heap \<Rightarrow> int \<times> int \<times> imagery_heap" where
  "scanRemoved layer [] i acc = acc"
| "scanRemoved layer (ti # rest) i (startIndex, numDestroyed, H) =
     (if imageryLayer (H (imagery ti)) = layer then
        scanRemoved layer rest (i + 1)
          (if startIndex = -1 then i else startIndex, numDestroyed + 1,
           H(imagery ti := releaseReference (H (imagery ti))))
      else if startIndex \<noteq> -1 then (startIndex, numDestroyed, H)
      else scanRemoved layer rest (i + 1) (startIndex, numDestroyed, H))"

definition onLayerRemoved :: "layer_ref \<Rightarrow> nat \<Rightarrow> Surface \<Rightarrow> Surface" where
  "onLayerRemoved layer index s =
     (case private_levelZeroTiles s of
        None \<Rightarrow> s
      | Some _ \<Rightarrow>
          fold (\<lambda>t s'.
                 (let (startIndex, numDestroyed, H) =
                        scanRemoved layer (tileImagery (tiles s' t)) 0 (-1, 0, imageries s');
                      stack = (if startIndex \<noteq> -1
                               then fst (js_splice (tileImagery (tiles s' t)) startIndex numDestroyed [])
                               else tileImagery (tiles s' t));
                      tile1 = (tiles s' t)\<lparr> tileImagery := stack \<rparr>;
                      tile2 = (if stack = [] then tile1\<lparr> renderable := False \<rparr> else tile1)
                  in s'\<lparr> tiles := (tiles s')(t := tile2), imageries := H \<rparr>))
            (tileReplacementQueue s) s)"


subsection \<open>JavaScript numbers\<close>

text \<open>
  Finite JavaScript numbers are idealised as reals. A division can leave them: dividing
  by zero gives an infinity, or \<^verbatim>\<open>NaN\<close> for \<^verbatim>\<open>0 / 0\<close>. The sign of a zero divisor, which
  a real cannot carry, is an argument of \<open>jsDivide\<close>.
\<close>

datatype jsnum = Finite real | PosInfinity | NegInfinity | NaN

definition jsDivide :: "real \<Rightarrow> real \<Rightarrow> bool \<Rightarrow> jsnum" where
  "jsDivide n d negativeZero =
     (if d \<noteq> 0 then Finite (n / d)
      else if n = 0 then NaN
      else if (0 < n) \<noteq> negativeZero then PosInfinity else NegInfinity)"

text \<open>A finite number divided by the result of a division whose zero results are \<open>+0\<close>.\<close>

definition jsDivideBy :: "real \<Rightarrow> jsnum \<Rightarrow> jsnum" where
  "jsDivideBy n q =
     (case q of
        Finite d \<Rightarrow> jsDivide n d False
      | PosInfinity \<Rightarrow> Finite 0
      | NegInfinity \<Rightarrow> Finite 0
      | NaN \<Rightarrow> NaN)"

text \<open>\<^verbatim>\<open>a < b\<close> for a finite \<open>b\<close>: false for \<^verbatim>\<open>NaN\<close>.\<close>

definition jsLess :: "jsnum \<Rightarrow> real \<Rightarrow> bool" where
  "jsLess a b =
     (case a of Finite r \<Rightarrow> r < b | PosInfinity \<Rightarrow> False | NegInfinity \<Rightarrow> True | NaN \<Rightarrow> False)"

subsection \<open>Screen-space error and visibility\<close>

text \<open>
  What the selection reads of the frame: the scene mode, the camera position in world
  coordinates and the height of its cartographic position, the canvas size, the frustum,
  the map projection of a cartographic \<open>(longitude, latitude)\<close>, and the culling tests.
  Bounding volumes are opaque; \<open>fromExtent2D\<close> is \<^verbatim>\<open>BoundingSphere.fromExtent2D\<close> followed by
  the reordering of the centre.
\<close>

record FrameState =
  sceneMode :: SceneMode
  cameraPositionWC :: cartesian3
  cameraCartographicHeight :: real
  clientWidth :: real
  clientHeight :: real
  fovy :: real
  frustumTop :: real
  frustumBottom :: real
  frustumRight :: real
  frustumLeft :: real
  project :: "real \<times> real \<Rightarrow> cartesian3"
  getVisibility :: "nat \<Rightarrow> Intersect"
  fromExtent2D :: "Extent \<Rightarrow> nat"
  unionSpheres :: "nat \<Rightarrow> nat \<Rightarrow> nat"
  isScaledSpacePointVisible :: "cartesian3 \<Rightarrow> bool"

definition subtract3 :: "cartesian3 \<Rightarrow> cartesian3 \<Rightarrow> cartesian3" where
  "subtract3 a b = (case a of (ax, ay, az) \<Rightarrow> case b of (bx, by, bz) \<Rightarrow> (ax - bx, ay - by, az - bz))"

definition dot3 :: "cartesian3 \<Rightarrow> cartesian3 \<Rightarrow> real" where
  "dot3 a b = (case a of (ax, ay, az) \<Rightarrow> case b of (bx, by, bz) \<Rightarrow> ax * bx + ay * by + az * bz)"

text \<open>
  The corner of a tile outside 3D: the projected corner \<open>(x, y, z)\<close> reordered to
  \<open>(0, x, y)\<close>.
\<close>

definition projectedCorner :: "FrameState \<Rightarrow> real \<times> real \<Rightarrow> cartesian3" where
  "projectedCorner frame cartographic =
     (case project frame cartographic of (px, py, pz) \<Rightarrow> (0, px, py))"

definition distanceSquaredToTile :: "FrameState \<Rightarrow> Tile \<Rightarrow> real" where
  "distanceSquaredToTile frame tile =
     (let is3D = (sceneMode frame = SCENE3D);
          southwestCorner =
            (if is3D then southwestCornerCartesian tile
             else projectedCorner frame (west (extent tile), south (extent tile)));
          northeastCorner =
            (if is3D then northeastCornerCartesian tile
             else projectedCorner frame (east (extent tile), north (extent tile)));
          westN = (if is3D then westNormal tile else (0, -1, 0));
          eastN = (if is3D then eastNormal tile else (0, 1, 0));
          southN = (if is3D then southNormal tile else (0, 0, -1));
          northN = (if is3D then northNormal tile else (0, 0, 1));
          maxH = (if is3D then maxHeight tile else 0);
          vectorFromSouthwestCorner = subtract3 (cameraPositionWC frame) southwestCorner;
          distanceToWestPlane = dot3 vectorFromSouthwestCorner westN;
          distanceToSouthPlane = dot3 vectorFromSouthwestCorner southN;
          vectorFromNortheastCorner = subtract3 (cameraPositionWC frame) northeastCorner;
          distanceToEastPlane = dot3 vectorFromNortheastCorner eastN;
          distanceToNorthPlane = dot3 vectorFromNortheastCorner northN;
          cameraHeight =
            (if is3D then cameraCartographicHeight frame else fst (cameraPositionWC frame));
          distanceFromTop = cameraHeight - maxH
      in (if 0 < distanceToWestPlane then distanceToWestPlane * distanceToWestPlane
          else if 0 < distanceToEastPlane then distanceToEastPlane * distanceToEastPlane
          else 0)
         + (if 0 < distanceToSouthPlane then distanceToSouthPlane * distanceToSouthPlane
            else if 0 < distanceToNorthPlane then distanceToNorthPlane * distanceToNorthPlane
            else 0)
         + (if 0 < distanceFromTop then distanceFromTop * distanceFromTop else 0))"

definition screenSpaceError2D :: "Collaborators \<Rightarrow> FrameState \<Rightarrow> tile_ref \<Rightarrow> jsnum" where
  "screenSpaceError2D env frame t =
     (let maxGeometricError = getLevelMaximumGeometricError env (level t);
          pixelSize =
            jsDivide (max (frustumTop frame - frustumBottom frame)
                          (frustumRight frame - frustumLeft frame))
                     (max (clientWidth frame) (clientHeight frame)) False
      in jsDivideBy maxGeometricError pixelSize)"

definition latitudeClosestToEquator :: "Extent \<Rightarrow> real" where
  "latitudeClosestToEquator e =
     (if 0 < south e then south e else if north e < 0 then north e else 0)"

text \<open>
  \<^verbatim>\<open>screenSpaceError\<close> returns the error and, outside 2D, stores the distance on the tile;
  the result carries the tile as the call leaves it. The divisor
  \<^verbatim>\<open>2 * distance * Math.tan(0.5 * fovy)\<close> is a negative zero when it is zero and the
  tangent is negative.
\<close>

definition screenSpaceError ::
  "Collaborators \<Rightarrow> FrameState \<Rightarrow> tile_ref \<Rightarrow> Tile \<Rightarrow> jsnum \<times> Tile" where
  "screenSpaceError env frame t tile =
     (if sceneMode frame = SCENE2D then (screenSpaceError2D env frame t, tile)
      else
        (let latitudeFactor =
               (if sceneMode frame = SCENE3D
                then cos (latitudeClosestToEquator (extent tile)) else 1);
             maxGeometricError =
               latitudeFactor * getLevelMaximumGeometricError env (level t);
             dist = sqrt (distanceSquaredToTile frame tile);
             height = clientHeight frame
         in (jsDivide (maxGeometricError * height) (2 * dist * tan (0.5 * fovy frame))
               (tan (0.5 * fovy frame) < 0),
             tile\<lparr> distance := dist \<rparr>)))"

definition isTileVisible :: "FrameState \<Rightarrow> Tile \<Rightarrow> bool" where
  "isTileVisible frame tile =
     (let boundingVolume =
            (if sceneMode frame \<noteq> SCENE3D then
               (if sceneMode frame = MORPHING
                then unionSpheres frame (boundingSphere3D tile) (fromExtent2D frame (extent tile))
                else fromExtent2D frame (extent tile))
             else boundingSphere3D tile)
      in if getVisibility frame boundingVolume = OUTSIDE then False
         else if sceneMode frame = SCENE3D then
           (case occludeePointInScaledSpace tile of
              None \<Rightarrow> True
            | Some p \<Rightarrow> isScaledSpacePointVisible frame p)
         else True)"

subsection \<open>Selection: \<^verbatim>\<open>selectTilesForRendering\<close>\<close>

definition queueTileLoad :: "tile_ref \<Rightarrow> Surface \<Rightarrow> Surface" where
  "queueTileLoad t s = insertBeforeInsertionPoint t s"

definition addTileToRenderList :: "tile_ref \<Rightarrow> Surface \<Rightarrow> Surface" where
  "addTileToRenderList t s =
     (let readyTextureCount =
            length (filter (\<lambda>ti. state (imageries s (imagery ti)) = READY)
                      (tileImagery (tiles s t)));
          tileSet = (case js_get (tilesToRenderByTextureCount s) readyTextureCount of
                       None \<Rightarrow> [] | Some ts \<Rightarrow> ts)
      in s\<lparr> tilesToRenderByTextureCount :=
               js_put (tilesToRenderByTextureCount s) readyTextureCount (Some (tileSet @ [t])),
             tilesRendered := tilesRendered s + 1,
             texturesRendered := texturesRendered s + readyTextureCount \<rparr>)"

text \<open>The body of the loop over the children in the function below.\<close>

definition queueChildLoad :: "tile_ref \<Rightarrow> bool \<times> Surface \<Rightarrow> bool \<times> Surface" where
  "queueChildLoad child acc =
     (case acc of (allRenderable, s) \<Rightarrow>
        (let s1 = markTileRendered child s;
             s2 = (if \<not> doneLoading (tiles s1 child) then queueTileLoad child s1 else s1)
         in (if \<not> renderable (tiles s2 child) then False else allRenderable, s2)))"

definition queueChildrenLoadAndDetermineIfChildrenAreAllRenderable ::
  "Collaborators \<Rightarrow> tile_ref \<Rightarrow> Surface \<Rightarrow> bool \<times> Surface" where
  "queueChildrenLoadAndDetermineIfChildrenAreAllRenderable env t s =
     (if level t = maxLevel env then (False, s)
      else
        (let (cs, s1) = getChildren t s
         in fold queueChildLoad cs (True, s1)))"

definition enqueueIfVisible :: "FrameState \<Rightarrow> tile_ref \<Rightarrow> Surface \<Rightarrow> Surface" where
  "enqueueIfVisible frame c s =
     (if isTileVisible frame (tiles s c)
      then s\<lparr> tileTraversalQueue := tileTraversalQueue s @ [c] \<rparr>
      else s\<lparr> tilesCulled := tilesCulled s + 1 \<rparr>)"

text \<open>
  The body of the breadth-first \<^verbatim>\<open>while\<close> loop for the tile \<open>t\<close> just dequeued. Reading
  \<^verbatim>\<open>children.length\<close> of a tile without children would raise.
\<close>

definition visitTile ::
  "Collaborators \<Rightarrow> FrameState \<Rightarrow> tile_ref \<Rightarrow> Surface \<Rightarrow> js_error + Surface" where
  "visitTile env frame t s =
     (let s1 = s\<lparr> tilesVisited := tilesVisited s + 1 \<rparr>;
          s2 = markTileRendered t s1;
          s3 = (if maxDepth s2 < level t then s2\<lparr> maxDepth := level t \<rparr> else s2);
          (sse, tile') = screenSpaceError env frame t (tiles s3 t);
          s4 = s3\<lparr> tiles := (tiles s3)(t := tile') \<rparr>
      in if jsLess sse (maxScreenSpaceError s4) then Inr (addTileToRenderList t s4)
         else
           (case queueChildrenLoadAndDetermineIfChildrenAreAllRenderable env t s4 of
              (True, s5) \<Rightarrow>
                (case children (tiles s5 t) of
                   None \<Rightarrow> Inl TypeError
                 | Some cs \<Rightarrow> Inr (fold (enqueueIfVisible frame) cs s5))
            | (False, s5) \<Rightarrow> Inr (addTileToRenderList t s5)))"

text \<open>
  The breadth-first loop. On a heap whose children pointers run in a cycle it need not
  return: that is the value \<open>None\<close>.
\<close>

partial_function (option) traverseTiles ::
  "Collaborators \<Rightarrow> FrameState \<Rightarrow> Surface \<Rightarrow> (js_error + Surface) option" where
  "traverseTiles env frame s =
     (case tileTraversalQueue s of
        [] \<Rightarrow> Some (Inr s)
      | t # q \<Rightarrow>
          (case visitTile env frame t (s\<lparr> tileTraversalQueue := q \<rparr>) of
             Inl e \<Rightarrow> Some (Inl e)
           | Inr s' \<Rightarrow> traverseTiles env frame s'))"

definition enqueueRoot :: "FrameState \<Rightarrow> tile_ref \<Rightarrow> Surface \<Rightarrow> Surface" where
  "enqueueRoot frame t s =
     (let s1 = (if \<not> doneLoading (tiles s t) then queueTileLoad t s else s)
      in if renderable (tiles s1 t) \<and> isTileVisible frame (tiles s1 t)
         then s1\<lparr> tileTraversalQueue := tileTraversalQueue s1 @ [t] \<rparr>
         else s1\<lparr> tilesCulled := tilesCulled s1 + 1 \<rparr>)"

text \<open>
  The part of \<^verbatim>\<open>selectTilesForRendering\<close> in front of the breadth-first loop, for a surface
  whose level-zero tiles exist: clear the render lists, the traversal queue and the
  counters, mark the insertion point of the load queue, and enqueue the roots.
\<close>

definition startTraversal :: "FrameState \<Rightarrow> tile_ref list \<Rightarrow> Surface \<Rightarrow> Surface" where
  "startTraversal frame roots s =
     fold (enqueueRoot frame) roots
       (markInsertionPoint
          (s\<lparr> tilesToRenderByTextureCount :=
                 map (map_option (\<lambda>_. [])) (tilesToRenderByTextureCount s),
               tileTraversalQueue := [],
               maxDepth := 0, tilesVisited := 0, tilesCulled := 0, tilesRendered := 0,
               texturesRendered := 0 \<rparr>))"

definition selectTilesForRendering ::
  "Collaborators \<Rightarrow> FrameState \<Rightarrow> Surface \<Rightarrow> (js_error + Surface) option" where
  "selectTilesForRendering env frame s =
     (if suspendLodUpdate s then Some (Inr s)
      else
        (case private_levelZeroTiles s of
           None \<Rightarrow>
             Some (Inr (s\<lparr> tilesToRenderByTextureCount :=
                             map (map_option (\<lambda>_. [])) (tilesToRenderByTextureCount s) \<rparr>))
         | Some roots \<Rightarrow> traverseTiles env frame (startTraversal frame roots s)))"

text \<open>
  The states the breadth-first loop passes through in one frame that starts in \<open>s0\<close>: the
  state in front of the loop, and the state after each turn of the loop.
\<close>

inductive traversal :: "Collaborators \<Rightarrow> FrameState \<Rightarrow> Surface \<Rightarrow> Surface \<Rightarrow> bool"
  for env frame s0 where
  start: "\<not> suspendLodUpdate s0 \<Longrightarrow> private_levelZeroTiles s0 = Some roots
            \<Longrightarrow> traversal env frame s0 (startTraversal frame roots s0)"
| turn: "traversal env frame s0 s \<Longrightarrow> tileTraversalQueue s = t # q
            \<Longrightarrow> visitTile env frame t (s\<lparr> tileTraversalQueue := q \<rparr>) = Inr s'
            \<Longrightarrow> traversal env frame s0 s'"


subsection \<open>The load pump: \<^verbatim>\<open>processTileLoadQueue\<close>\<close>

text \<open>\<^verbatim>\<open>Date.now()\<close>: the reading, and the surface with the call counted.\<close>

definition dateNow :: "Collaborators \<Rightarrow> Surface \<Rightarrow> int \<times> Surface" where
  "dateNow env s = (now env (clock s), s\<lparr> clock := clock s + 1 \<rparr>)"

text \<open>
  The walk \<^verbatim>\<open>while (typeof parent !== 'undefined' && (parent.state === FAILED ||
  parent.state === INVALID)) parent = parent.parent\<close>, started at \<open>p\<close>. It ends with the first
  ancestor that has not failed, or with \<^verbatim>\<open>undefined\<close> (\<open>Some None\<close>) behind the last ancestor.
  On a heap whose parent pointers run in a cycle of failed imagery it does not return
  (\<open>None\<close>).
\<close>

partial_function (option) walkFailedParents ::
  "imagery_heap \<Rightarrow> imagery_ref option \<Rightarrow> imagery_ref option option" where
  "walkFailedParents H p =
     (case p of
        None \<Rightarrow> Some None
      | Some r \<Rightarrow>
          (if state (H r) = FAILED \<or> state (H r) = INVALID
           then walkFailedParents H (parent (H r))
           else Some (Some r)))"

definition setImageryState :: "imagery_ref \<Rightarrow> ImageryState \<Rightarrow> imagery_heap \<Rightarrow> imagery_heap" where
  "setImageryState r st H = H(r := (H r)\<lparr> state := st \<rparr>)"

text \<open>
  One of the three transitions \<^verbatim>\<open>if (imagery.state === FROM) { imagery.state =
  TRANSITIONING; imageryLayer.step(imagery); }\<close>.
\<close>

definition imageryTransition ::
  "ImageryState \<Rightarrow> (Imagery \<Rightarrow> Imagery) \<Rightarrow> imagery_ref \<Rightarrow> imagery_heap \<Rightarrow> imagery_heap" where
  "imageryTransition from step r H =
     (if state (H r) = from
      then (let H1 = setImageryState r TRANSITIONING H
            in H1(r := imageryStep step (H1 r)))
      else H)"

text \<open>
  The body of the imagery loop for the entry at index \<open>i\<close> of the stack of tile \<open>t\<close>. The
  result tells whether the placeholder branch spliced the entry out, the value of
  \<^verbatim>\<open>imageryDoneLoading\<close>, and the surface. The local variables \<^verbatim>\<open>tileImagery\<close>,
  \<^verbatim>\<open>imagery\<close> and \<^verbatim>\<open>imageryLayer\<close> are \<open>ti\<close>, \<open>im\<close> and \<open>layer\<close>; after the placeholder
  branch they still refer to the entry spliced out, so what the rest of the body assigns to
  \<^verbatim>\<open>tileImagery\<close> does not reach the stack. With no ancestor left, \<^verbatim>\<open>parent\<close> is
  \<^verbatim>\<open>undefined\<close> and \<^verbatim>\<open>parent.addReference()\<close> raises.
\<close>

definition imageryIteration ::
  "Collaborators \<Rightarrow> tile_ref \<Rightarrow> int \<Rightarrow> Surface \<Rightarrow> (js_error + bool \<times> bool \<times> Surface) option" where
  "imageryIteration env t i s =
     (let stack = tileImagery (tiles s t)
      in if i < 0 \<or> int (length stack) \<le> i then Some (Inl TypeError)
         else
           (let ti = stack ! nat i;
                im = imagery ti;
                layer = imageryLayer (imageries s im);
                placeholder = (state (imageries s im) = PLACEHOLDER
                               \<and> providerReady (layerTable env layer));
                s1 = (if placeholder then
                        (let sA = s\<lparr> imageries :=
                                      (imageries s)(im := releaseReference (imageries s im)) \<rparr>;
                             sB = sA\<lparr> tiles := (tiles sA)(t := (tiles sA t)
                                        \<lparr> tileImagery := fst (js_splice stack i 1 []) \<rparr>) \<rparr>
                         in snd (createTileImagerySkeletons env layer t (Some (nat i)) sB))
                      else s);
                H2 = imageryTransition UNLOADED (requestImagery env layer) im (imageries s1);
                H3 = imageryTransition RECEIVED (createTexture env layer) im H2;
                H4 = imageryTransition TEXTURE_LOADED (reprojectTexture env layer) im H3;
                failed = (state (H4 im) = FAILED \<or> state (H4 im) = INVALID)
            in case (if failed then walkFailedParents H4 (parent (H4 im)) else Some (Some im)) of
                 None \<Rightarrow> None
               | Some None \<Rightarrow> Some (Inl TypeError)
               | Some (Some im') \<Rightarrow>
                   (let ti1 = (if failed
                               then ti\<lparr> originalImagery := Some im, imagery := im' \<rparr> else ti);
                        H5 = (if failed then H4(im' := addReference (H4 im')) else H4);
                        imageryDoneLoading = (state (H5 im') = READY);
                        ti2 = (if imageryDoneLoading \<and> textureTranslationAndScale ti1 = None
                               then ti1\<lparr> textureTranslationAndScale :=
                                          Some (calculateTextureTranslationAndScale env layer
                                                  (tiles s1 t) ti1) \<rparr>
                               else ti1);
                        stack' = (if placeholder then tileImagery (tiles s1 t)
                                  else (tileImagery (tiles s1 t))[nat i := ti2])
                    in Some (Inr (placeholder, imageryDoneLoading,
                                  s1\<lparr> tiles := (tiles s1)(t := (tiles s1 t)\<lparr> tileImagery := stack' \<rparr>),
                                     imageries := H5 \<rparr>)))))"

text \<open>
  The loop variables of \<^verbatim>\<open>for (i = 0, len = ...; Date.now() < endTime && i < len; ++i)\<close>
  together with the local \<^verbatim>\<open>doneLoading\<close>. \<open>visits\<close> is an observation the source does not
  keep: the values of \<^verbatim>\<open>imageryDoneLoading\<close>, one per turn of the loop, in order.
\<close>

record ImageryLoop =
  loopIndex :: int
  loopLen :: int
  loopDoneLoading :: bool
  visits :: "bool list"
  loopSurface :: Surface

text \<open>
  The imagery loop of one tile. After the placeholder branch the body has set
  \<^verbatim>\<open>--i\<close> and \<^verbatim>\<open>len = tileImageryCollection.length\<close>. The loop returns when the deadline
  has passed or the stack is exhausted; where neither ever happens it does not return.
\<close>

partial_function (option) imageryLoop ::
  "Collaborators \<Rightarrow> int \<Rightarrow> tile_ref \<Rightarrow> ImageryLoop \<Rightarrow> (js_error + ImageryLoop) option" where
  "imageryLoop env endTime t l =
     (let (time, s0) = dateNow env (loopSurface l)
      in if time < endTime \<and> loopIndex l < loopLen l then
           (case imageryIteration env t (loopIndex l) s0 of
              None \<Rightarrow> None
            | Some (Inl e) \<Rightarrow> Some (Inl e)
            | Some (Inr (placeholder, imageryDoneLoading, s1)) \<Rightarrow>
                imageryLoop env endTime t
                  \<lparr> loopIndex = (if placeholder then loopIndex l - 1 else loopIndex l) + 1,
                    loopLen = (if placeholder then int (length (tileImagery (tiles s1 t)))
                               else loopLen l),
                    loopDoneLoading = (loopDoneLoading l \<and> imageryDoneLoading),
                    visits = visits l @ [imageryDoneLoading],
                    loopSurface = s1 \<rparr>)
         else Some (Inr (l\<lparr> loopSurface := s0 \<rparr>)))"

definition setTileState :: "tile_ref \<Rightarrow> TileState \<Rightarrow> Surface \<Rightarrow> Surface" where
  "setTileState t st s = s\<lparr> tiles := (tiles s)(t := (tiles s t)\<lparr> tileState := st \<rparr>) \<rparr>"

definition terrainTransition ::
  "TileState \<Rightarrow> (Tile \<Rightarrow> Tile) \<Rightarrow> tile_ref \<Rightarrow> Surface \<Rightarrow> Surface" where
  "terrainTransition from step t s =
     (if tileState (tiles s t) = from
      then (let s1 = setTileState t T_TRANSITIONING s
            in s1\<lparr> tiles := (tiles s1)(t := terrainStep step (tiles s1 t)) \<rparr>)
      else s)"

text \<open>
  The terrain transitions of one tile. A tile that has left \<open>Unloaded\<close> enters the
  replacement queue, the queue is trimmed to \<open>100\<close>, and every layer of the collection
  creates its skeletons on the tile.
\<close>

definition transitionTerrain :: "Collaborators \<Rightarrow> tile_ref \<Rightarrow> Surface \<Rightarrow> Surface" where
  "transitionTerrain env t s =
     (let s1 = (if tileState (tiles s t) = T_UNLOADED then
                  (let sA = terrainTransition T_UNLOADED (requestTileGeometry env) t s
                   in if tileState (tiles sA t) \<noteq> T_UNLOADED then
                        fold (\<lambda>layer s'. snd (createTileImagerySkeletons env layer t None s'))
                          (imageryLayerCollection sA)
                          (trimTiles env 100 t (markTileRendered t sA))
                      else sA)
                else s);
          s2 = terrainTransition T_RECEIVED (transformGeometry env) t s1
      in terrainTransition T_TRANSFORMED (createResources env) t s2)"

text \<open>
  The completion step \<^verbatim>\<open>if (i === len && doneLoading) { tile.renderable = true;
  tile.doneLoading = true; tileLoadQueue.remove(tile); }\<close>.
\<close>

definition completeTile :: "tile_ref \<Rightarrow> ImageryLoop \<Rightarrow> Surface" where
  "completeTile t l =
     (let s = loopSurface l
      in if loopIndex l = loopLen l \<and> loopDoneLoading l then
           loadQueueRemove t
             (s\<lparr> tiles := (tiles s)(t := (tiles s t)\<lparr> renderable := True, doneLoading := True \<rparr>) \<rparr>)
         else s)"

text \<open>
  The body of the outer loop for the tile \<open>t\<close>: terrain transitions, imagery loop,
  completion step. The result carries the loop variables at the completion test beside the
  surface.
\<close>

definition processTile ::
  "Collaborators \<Rightarrow> int \<Rightarrow> tile_ref \<Rightarrow> Surface \<Rightarrow> (js_error + ImageryLoop \<times> Surface) option" where
  "processTile env endTime t s =
     (let s3 = transitionTerrain env t s;
          doneLoading = (tileState (tiles s3 t) = T_READY)
      in case imageryLoop env endTime t
                \<lparr> loopIndex = 0, loopLen = int (length (tileImagery (tiles s3 t))),
                  loopDoneLoading = doneLoading, visits = [], loopSurface = s3 \<rparr> of
           None \<Rightarrow> None
         | Some (Inl e) \<Rightarrow> Some (Inl e)
         | Some (Inr l) \<Rightarrow> Some (Inr (l, completeTile t l)))"

text \<open>
  The outer loop \<^verbatim>\<open>while (Date.now() < endTime && typeof tile !== 'undefined')\<close>, over the
  tiles still to visit. A turn changes the load queue only by removing its own tile, so the
  tiles visited are those of the queue as it was at the start, in order. Whether
  \<^verbatim>\<open>tile.loadNext\<close> of a tile just removed still leads to its successor is up to
  \<^verbatim>\<open>TileLoadQueue.remove\<close>, which is not under src/: \<open>removedKeepsNext\<close> says so, and the loop
  ends behind a removed tile when it does not.
\<close>

fun pumpTiles ::
  "Collaborators \<Rightarrow> bool \<Rightarrow> int \<Rightarrow> tile_ref list \<Rightarrow> Surface \<Rightarrow> (js_error + Surface) option" where
  "pumpTiles env removedKeepsNext endTime [] s = Some (Inr (snd (dateNow env s)))"
| "pumpTiles env removedKeepsNext endTime (t # rest) s =
     (let (time, s0) = dateNow env s
      in if time < endTime then
           (case processTile env endTime t s0 of
              None \<Rightarrow> None
            | Some (Inl e) \<Rightarrow> Some (Inl e)
            | Some (Inr (l, s1)) \<Rightarrow>
                (if loopIndex l = loopLen l \<and> loopDoneLoading l \<and> \<not> removedKeepsNext
                 then Some (Inr (snd (dateNow env s1)))
                 else pumpTiles env removedKeepsNext endTime rest s1))
         else Some (Inr s0))"

definition processTileLoadQueue ::
  "Collaborators \<Rightarrow> bool \<Rightarrow> Surface \<Rightarrow> (js_error + Surface) option" where
  "processTileLoadQueue env removedKeepsNext s =
     (let (startTime, s0) = dateNow env s;
          timeSlice = 10;
          endTime = startTime + timeSlice
      in pumpTiles env removedKeepsNext endTime (tileLoadQueue s0) s0)"


subsection \<open>A frame: \<^verbatim>\<open>update\<close>\<close>

text \<open>
  \<^verbatim>\<open>update\<close>: selection, load pump, the layers' \<^verbatim>\<open>updateTiles\<close> unless the level of
  detail is frozen, and command assembly, whose in-place sort reaches the render lists of
  the surface. The command pools travel in the \<open>Assembler\<close>. The debug command for a
  bounding sphere is left out.
\<close>

definition update ::
  "Collaborators \<Rightarrow> bool \<Rightarrow> FrameState \<Rightarrow> nat \<Rightarrow> (string \<rightharpoonup> nat) \<Rightarrow> Surface \<times> Assembler
     \<Rightarrow> (js_error + Surface \<times> Assembler) option" where
  "update env removedKeepsNext frame maxTextures centralBodyUniformMap sa =
     (case sa of (s, a) \<Rightarrow>
        (case selectTilesForRendering env frame s of
           None \<Rightarrow> None
         | Some (Inl e) \<Rightarrow> Some (Inl e)
         | Some (Inr s1) \<Rightarrow>
             (case processTileLoadQueue env removedKeepsNext s1 of
                None \<Rightarrow> None
              | Some (Inl e) \<Rightarrow> Some (Inl e)
              | Some (Inr s2) \<Rightarrow>
                  (let s3 = (if \<not> suspendLodUpdate s2
                             then s2\<lparr> imageries := fold (layerUpdateTiles env)
                                                      (imageryLayerCollection s2) (imageries s2) \<rparr>
                             else s2)
                   in case createRenderCommandsForSelectedTiles maxTextures (tiles s3)
                             (imageries s3) (layerTable env) centralBodyUniformMap
                             (tilesToRenderByTextureCount s3) a of
                        None \<Rightarrow> None
                      | Some (Inl e) \<Rightarrow> Some (Inl e)
                      | Some (Inr (a', sets')) \<Rightarrow>
                          Some (Inr (s3\<lparr> tilesToRenderByTextureCount := sets' \<rparr>, a'))))))"


subsection \<open>Concrete surfaces\<close>

text \<open>
  A synchronous terrain provider in the manner of \<^verbatim>\<open>EllipsoidTerrainProvider\<close>, imagery
  layers whose requests complete in a later frame, no eviction, and a clock that advances
  one millisecond per reading.
\<close>

definition exampleCollaborators :: Collaborators where
  "exampleCollaborators =
     \<lparr> maxLevel = 2,
       getLevelMaximumGeometricError = (\<lambda>l. 2),
       numberOfLevelZeroTilesX = 2,
       numberOfLevelZeroTilesY = 1,
       requestTileGeometry = (\<lambda>t. t\<lparr> tileState := T_RECEIVED \<rparr>),
       transformGeometry = (\<lambda>t. t\<lparr> tileState := T_TRANSFORMED \<rparr>),
       createResources = (\<lambda>t. t\<lparr> tileState := T_READY \<rparr>),
       layerTable = exampleLayers,
       skeletonsFor = (\<lambda>l t H. ([], H)),
       requestImagery = (\<lambda>l im. im),
       createTexture = (\<lambda>l im. im),
       reprojectTexture = (\<lambda>l im. im),
       calculateTextureTranslationAndScale = (\<lambda>l tile ti. (0, 0, 1, 1)),
       layerUpdateTiles = (\<lambda>l H. H),
       evicted = (\<lambda>k q. []),
       now = (\<lambda>k. int k) \<rparr>"

definition exampleDescription :: Description where
  "exampleDescription =
     \<lparr> terrainProvider = Some exampleCollaborators,
       descriptionImageryLayerCollection = Some [0],
       descriptionMaxScreenSpaceError = None \<rparr>"

text \<open>
  Two layers \<open>0\<close> and \<open>1\<close>, in this order in the collection. Imagery \<open>11\<close> belongs to layer \<open>1\<close>,
  every other imagery to layer \<open>0\<close>. The one resident tile has one entry of each layer, in
  the order of the layers.
\<close>

definition twoLayerHeap :: imagery_heap where
  "twoLayerHeap = (\<lambda>r. \<lparr> state = READY, parent = None,
       imageryLayer = (if r = 11 then 1 else 0), texture = Some r, referenceCount = 1,
       imageryX = 0, imageryY = 0, imageryLevel = 0 \<rparr>)"

definition twoLayerSurface :: Surface where
  "twoLayerSurface =
     \<lparr> maxScreenSpaceError = 2,
       imageryLayerCollection = [0, 1],
       private_levelZeroTiles = Some [(0, 0, 0)],
       levelZeroTiles = None,
       tiles = (\<lambda>_. exampleTile [skeleton 10, skeleton 11]),
       imageries = twoLayerHeap,
       tilesToRenderByTextureCount = [],
       tileTraversalQueue = [],
       tileLoadQueue = [],
       loadInsertionPoint = None,
       tileReplacementQueue = [(0, 0, 0)],
       clock = 0,
       suspendLodUpdate = False,
       maxDepth = 0, tilesVisited = 0, tilesCulled = 0, tilesRendered = 0,
       texturesRendered = 0,
       boundingSphereVA = None \<rparr>"


text \<open>
  Imagery \<open>5\<close> has failed and has no parent; every other imagery is ready. The tile in the
  load queue has ready terrain and one entry, for imagery \<open>5\<close>.
\<close>

definition failedHeap :: imagery_heap where
  "failedHeap = (\<lambda>r. \<lparr> state = (if r = 5 then FAILED else READY), parent = None,
       imageryLayer = 0, texture = None, referenceCount = 1,
       imageryX = 0, imageryY = 0, imageryLevel = 0 \<rparr>)"

definition failedSurface :: Surface where
  "failedSurface =
     twoLayerSurface\<lparr> imageryLayerCollection := [0],
                      tiles := (\<lambda>_. (exampleTile [skeleton 5])\<lparr> renderable := False, doneLoading := False \<rparr>),
                      imageries := failedHeap,
                      tileLoadQueue := [(0, 0, 0)] \<rparr>"




text \<open>
  The same collaborators with a clock that advances four milliseconds per reading, and the
  description of a surface with this terrain provider and one imagery layer.
\<close>

definition slowCollaborators :: Collaborators where
  "slowCollaborators = exampleCollaborators\<lparr> now := (\<lambda>k. 4 * int k) \<rparr>"

definition slowDescription :: Description where
  "slowDescription =
     \<lparr> terrainProvider = Some slowCollaborators,
       descriptionImageryLayerCollection = Some [0],
       descriptionMaxScreenSpaceError = None \<rparr>"

text \<open>The surface the constructor returns for \<open>slowDescription\<close>.\<close>

definition constructedSurface :: Surface where
  "constructedSurface =
     \<lparr> maxScreenSpaceError = 2,
       imageryLayerCollection = [0],
       private_levelZeroTiles = Some [(0, 0, 0), (0, 1, 0)],
       levelZeroTiles = None,
       tiles = (\<lambda>_. newTile),
       imageries = exampleHeap,
       tilesToRenderByTextureCount = [],
       tileTraversalQueue = [],
       tileLoadQueue = [],
       loadInsertionPoint = None,
       tileReplacementQueue = [],
       clock = 0,
       suspendLodUpdate = False,
       maxDepth = 0, tilesVisited = 0, tilesCulled = 0, tilesRendered = 0,
       texturesRendered = 0,
       boundingSphereVA = None \<rparr>"

subsection \<open>Concrete frames\<close>

text \<open>
  A Columbus View frame with the identity as map projection and nothing culled: a
  \<open>1024 \<times> 768\<close> canvas, a vertical field of view of \<open>\<pi>/2\<close>, the camera one unit above the
  plane over the southern edge of \<open>northernTile\<close>, whose extent reaches from latitude \<open>\<pi>/3\<close>
  to the pole. The same frame in 3D is \<open>globeFrame\<close>.
\<close>

definition columbusFrame :: FrameState where
  "columbusFrame =
     \<lparr> sceneMode = COLUMBUS_VIEW,
       cameraPositionWC = (1, 0, pi / 3),
       cameraCartographicHeight = 1,
       clientWidth = 1024,
       clientHeight = 768,
       fovy = pi / 2,
       frustumTop = 1, frustumBottom = -1, frustumRight = 1, frustumLeft = -1,
       project = (\<lambda>c. (fst c, snd c, 0)),
       getVisibility = (\<lambda>_. INSIDE),
       fromExtent2D = (\<lambda>_. 0),
       unionSpheres = (\<lambda>a b. a),
       isScaledSpacePointVisible = (\<lambda>_. True) \<rparr>"

definition globeFrame :: FrameState where
  "globeFrame = columbusFrame\<lparr> sceneMode := SCENE3D \<rparr>"

definition northernTile :: Tile where
  "northernTile =
     (exampleTile [])\<lparr> extent := \<lparr> west = -1, south = pi / 3, east = 1, north = pi / 2 \<rparr> \<rparr>"

text \<open>
  The screen-space error as the specification words it, with the latitude factor in every
  mode.
\<close>

definition claimedScreenSpaceError ::
  "Collaborators \<Rightarrow> FrameState \<Rightarrow> tile_ref \<Rightarrow> Tile \<Rightarrow> real" where
  "claimedScreenSpaceError env frame t tile =
     (cos (latitudeClosestToEquator (extent tile))
        * getLevelMaximumGeometricError env (level t) * clientHeight frame)
     / (2 * sqrt (distanceSquaredToTile frame tile) * tan (fovy frame / 2))"


subsection \<open>Specification vocabulary for the selection\<close>

text \<open>
  The tree is well formed when the children of a tile are its four quadtree children and
  the level-zero tiles are of level zero. The loop keeps \<open>traversalInvariant\<close>: the tree
  stays well formed, no tile in the traversal queue lies below \<open>maxLevel\<close>, and the
  insertion point of the load queue is a member of it.
\<close>

definition wellFormedTree :: "Surface \<Rightarrow> bool" where
  "wellFormedTree s =
     ((\<forall>u cs. children (tiles s u) = Some cs \<longrightarrow> cs = quadChildren u)
      \<and> (\<forall>roots. private_levelZeroTiles s = Some roots \<longrightarrow> (\<forall>r\<in>set roots. level r = 0)))"

definition traversalInvariant :: "Collaborators \<Rightarrow> Surface \<Rightarrow> bool" where
  "traversalInvariant env s =
     ((\<forall>u cs. children (tiles s u) = Some cs \<longrightarrow> cs = quadChildren u)
      \<and> (\<forall>u\<in>set (tileTraversalQueue s). level u \<le> maxLevel env)
      \<and> (\<forall>b. loadInsertionPoint s = Some b \<longrightarrow> b \<in> set (tileLoadQueue s)))"

definition sseOf :: "Collaborators \<Rightarrow> FrameState \<Rightarrow> Surface \<Rightarrow> tile_ref \<Rightarrow> jsnum" where
  "sseOf env frame s t = fst (screenSpaceError env frame t (tiles s t))"

definition allChildrenRenderable :: "Surface \<Rightarrow> tile_ref \<Rightarrow> bool" where
  "allChildrenRenderable s t =
     (case children (tiles s t) of
        None \<Rightarrow> False
      | Some cs \<Rightarrow> list_all (\<lambda>c. renderable (tiles s c)) cs)"

definition renderListAfterAdding :: "tile_ref \<Rightarrow> Surface \<Rightarrow> tile_ref list js_array" where
  "renderListAfterAdding t s =
     (let n = readyCount (imageries s) (tileImagery (tiles s t))
      in js_put (tilesToRenderByTextureCount s) n
           (Some ((case js_get (tilesToRenderByTextureCount s) n of None \<Rightarrow> [] | Some ts \<Rightarrow> ts)
                  @ [t])))"

subsection \<open>Specification vocabulary for the load pump\<close>

text \<open>The exception a result carries, if any.\<close>

definition raised :: "(js_error + 'a) option \<Rightarrow> js_error option" where
  "raised r = (case r of Some (Inl e) \<Rightarrow> Some e | _ \<Rightarrow> None)"

text \<open>The invariant of the load queue: no tile in it is done loading.\<close>

definition queueInvariant :: "Surface \<Rightarrow> bool" where
  "queueInvariant s = (\<forall>t\<in>set (tileLoadQueue s). \<not> doneLoading (tiles s t))"

text \<open>
  \<open>sameFlags s s'\<close>: the step from \<open>s\<close> to \<open>s'\<close> leaves the load queue and the flags
  \<^verbatim>\<open>renderable\<close> and \<^verbatim>\<open>doneLoading\<close> of every tile as they are.
\<close>

definition sameFlags :: "Surface \<Rightarrow> Surface \<Rightarrow> bool" where
  "sameFlags s s' =
     (tileLoadQueue s' = tileLoadQueue s
      \<and> (\<lambda>u. doneLoading (tiles s' u)) = (\<lambda>u. doneLoading (tiles s u))
      \<and> (\<lambda>u. renderable (tiles s' u)) = (\<lambda>u. renderable (tiles s u)))"

text \<open>
  \<open>loopStep t l l'\<close>: from the loop state \<open>l\<close> the imagery loop of tile \<open>t\<close> has reached \<open>l'\<close>.
  It has left the load queue, the flags and the terrain states as they were, and the local
  \<^verbatim>\<open>doneLoading\<close> is still the conjunction of its initial value and the values of
  \<^verbatim>\<open>imageryDoneLoading\<close> seen so far.
\<close>

definition loopStep :: "tile_ref \<Rightarrow> ImageryLoop \<Rightarrow> ImageryLoop \<Rightarrow> bool" where
  "loopStep t l l' =
     (sameFlags (loopSurface l) (loopSurface l')
      \<and> (\<lambda>u. tileState (tiles (loopSurface l') u)) = (\<lambda>u. tileState (tiles (loopSurface l) u))
      \<and> (\<forall>D. loopDoneLoading l = (D \<and> list_all id (visits l))
             \<longrightarrow> loopDoneLoading l' = (D \<and> list_all id (visits l'))))"


subsection \<open>The surfaces a program can observe\<close>

text \<open>
  The surfaces between the calls of the module, for a surface constructed with the terrain
  provider \<open>env\<close>: the surface the constructor returns, the surface after a frame
  (\<^verbatim>\<open>update\<close> with any frame state, pools and texture units) and the surface after a layer
  event. What happens outside the module between two calls (a provider completing a
  request, the application changing the layer collection or a debug switch) is
  over-approximated by any change that leaves the load queue and the flags
  \<^verbatim>\<open>renderable\<close> and \<^verbatim>\<open>doneLoading\<close> of every tile alone.
\<close>

inductive reachable :: "Collaborators \<Rightarrow> Surface \<Rightarrow> bool" for env where
  constructed:
    "terrainProvider description = Some env \<Longrightarrow> CentralBodySurface description H = Inr s
       \<Longrightarrow> reachable env s"
| updated:
    "reachable env s
       \<Longrightarrow> update env removedKeepsNext frame maxTextures centralBodyUniformMap (s, a)
             = Some (Inr (s', a'))
       \<Longrightarrow> reachable env s'"
| layerAdded: "reachable env s \<Longrightarrow> reachable env (onLayerAdded env layer index s)"
| layerRemoved: "reachable env s \<Longrightarrow> reachable env (onLayerRemoved layer index s)"
| layerMoved: "reachable env s \<Longrightarrow> reachable env (onLayerMoved layer newIndex oldIndex s)"
| outside: "reachable env s \<Longrightarrow> sameFlags s s' \<Longrightarrow> reachable env s'"

section \<open>Properties\<close>

subsection \<open>The command assembler\<close>

lemma readyCount_simps [simp]:
  "readyCount H [] = 0"
  "readyCount H (ti # tis) = (if isReady H ti then 1 else 0) + readyCount H tis"
  "readyCount H (xs @ ys) = readyCount H xs + readyCount H ys"
  by (simp_all add: readyCount_def)

lemma pack_prefix:
  "packDayTextures m H L n um rest = (n', um', rest') \<Longrightarrow>
     rest = packedPrefix m H n rest @ rest' \<and> n' = n + readyCount H (packedPrefix m H n rest)"
  by (induction m H L n um rest arbitrary: n' um' rest' rule: packDayTextures.induct)
     (simp_all add: isReady_def split: if_splits)

lemma prefix_done: "\<not> n < m \<Longrightarrow> packedPrefix m H n rest = []"
  by (cases rest) auto

lemma prefix_bound: "n < m \<Longrightarrow> n + readyCount H (packedPrefix m H n rest) \<le> m"
proof (induction rest arbitrary: n)
  case Nil
  then show ?case by simp
next
  case (Cons ti rest)
  show ?case
  proof (cases "isReady H ti")
    case True
    show ?thesis
    proof (cases "n + 1 < m")
      case t: True
      with Cons.IH[of "n + 1"] Cons.prems True show ?thesis by simp
    next
      case False
      with Cons.prems True prefix_done[of "n + 1" m H rest] show ?thesis by simp
    qed
  next
    case False
    with Cons.IH[of n] Cons.prems show ?thesis by simp
  qed
qed

lemma prefix_full:
  "packedPrefix m H n rest \<noteq> rest \<Longrightarrow> \<not> n + readyCount H (packedPrefix m H n rest) < m"
proof (induction rest arbitrary: n)
  case Nil
  then show ?case by simp
next
  case (Cons ti rest)
  show ?case
  proof (cases "n < m")
    case False
    then show ?thesis by simp
  next
    case lt: True
    show ?thesis
    proof (cases "isReady H ti")
      case True
      with Cons.IH[of "n + 1"] Cons.prems lt show ?thesis by simp
    next
      case False
      with Cons.IH[of n] Cons.prems lt show ?thesis by simp
    qed
  qed
qed

lemma prefix_last_ready:
  "n < m \<Longrightarrow> \<not> n + readyCount H (packedPrefix m H n rest) < m \<Longrightarrow>
     packedPrefix m H n rest \<noteq> [] \<and> isReady H (last (packedPrefix m H n rest))"
proof (induction rest arbitrary: n)
  case Nil
  then show ?case by simp
next
  case (Cons ti rest)
  show ?case
  proof (cases "isReady H ti")
    case True
    show ?thesis
    proof (cases "n + 1 < m")
      case t: True
      with Cons.IH[of "n + 1"] Cons.prems True show ?thesis by auto
    next
      case False
      with Cons.prems True have "packedPrefix m H n (ti # rest) = [ti]"
        by (cases rest) auto
      with True show ?thesis by simp
    qed
  next
    case False
    with Cons.IH[of n] Cons.prems show ?thesis by auto
  qed
qed

lemma prefix_nonempty: "n < m \<Longrightarrow> rest \<noteq> [] \<Longrightarrow> packedPrefix m H n rest \<noteq> []"
  by (cases rest) auto

lemma js_put_take:
  "n \<le> length xs \<Longrightarrow> n < length (js_put xs n v) \<and> take (Suc n) (js_put xs n v) = take n xs @ [v]"
  by (auto simp: js_put_def take_Suc_conv_app_nth)

lemma pack_textures:
  "packDayTextures m H L n um rest = (n', um', rest') \<Longrightarrow> n \<le> length (dayTextures um) \<Longrightarrow>
     n' \<le> length (dayTextures um') \<and>
     take n' (dayTextures um') =
       take n (dayTextures um) @ map (textureOf H) (filter (isReady H) (packedPrefix m H n rest))"
proof (induction m H L n um rest arbitrary: n' um' rest' rule: packDayTextures.induct)
  case (1 m H L n um)
  then show ?case by simp
next
  case (2 m H L n um ti rest)
  show ?case
  proof (cases "n < m")
    case False
    with 2(3,4) show ?thesis by auto
  next
    case lt: True
    show ?thesis
    proof (cases "isReady H ti")
      case False
      with lt 2(3) have p: "packDayTextures m H L n um rest = (n', um', rest')"
        by (simp add: isReady_def)
      from False have ns: "state (H (imagery ti)) \<noteq> READY" by (simp add: isReady_def)
      from 2(1)[OF lt ns p 2(4)] lt False show ?thesis
        by simp
    next
      case True
      from True have ns: "\<not> state (H (imagery ti)) \<noteq> READY" by (simp add: isReady_def)
      define um1 where "um1 = um\<lparr> dayTextures :=
                    js_put (dayTextures um) n (texture (H (imagery ti))),
                  dayTextureTranslationAndScale :=
                    js_put (dayTextureTranslationAndScale um) n
                      (textureTranslationAndScale ti),
                  dayTextureTexCoordsExtent :=
                    js_put (dayTextureTexCoordsExtent um) n
                      (textureCoordinateExtent ti),
                  dayTextureAlpha :=
                    js_put (dayTextureAlpha um) n
                      (Some (alpha (L (imageryLayer (H (imagery ti)))))) \<rparr>"
      from lt ns 2(3) have p: "packDayTextures m H L (n + 1) um1 rest = (n', um', rest')"
        by (simp add: um1_def)
      have d1: "dayTextures um1 = js_put (dayTextures um) n (texture (H (imagery ti)))"
        by (simp add: um1_def)
      have l1: "n + 1 \<le> length (dayTextures um1)"
        using js_put_take[OF 2(4), of "texture (H (imagery ti))"] d1 by simp
      from 2(2)[OF lt ns p[unfolded um1_def] l1[unfolded um1_def]]
      have ih: "n' \<le> length (dayTextures um')"
           "take n' (dayTextures um') = take (n + 1) (dayTextures um1)
              @ map (textureOf H) (filter (isReady H) (packedPrefix m H (n + 1) rest))"
        by (simp_all add: um1_def)
      have "take (n + 1) (dayTextures um1) = take n (dayTextures um) @ [textureOf H ti]"
        using js_put_take[OF 2(4), of "texture (H (imagery ti))"] d1 by (simp add: textureOf_def)
      with ih lt True show ?thesis
        by simp
    qed
  qed
qed

lemma poolsConsistent_iff:
  "poolsConsistent a \<longleftrightarrow>
     (\<forall>i. js_get (tileCommands a) i \<noteq> None \<longrightarrow> js_get (tileCommandUniformMaps a) i \<noteq> None)"
  by (auto simp: poolsConsistent_def list_all_iff js_get_def)

lemma js_get_put: "js_get (js_put xs i v) k = (if k = i then v else js_get xs k)"
  by (auto simp: js_get_def js_put_def nth_append)

lemma js_get_set_length: "js_get (js_set_length xs n) k = (if k < n then js_get xs k else None)"
  by (auto simp: js_get_def js_set_length_def nth_append)

lemma length_js_set_length: "length (js_set_length xs n) = n"
  by (simp add: js_set_length_def)

lemma js_set_length_take: "n \<le> length xs \<Longrightarrow> js_set_length xs n = take n xs"
  by (simp add: js_set_length_def)

lemma emitCommand_step:
  assumes pc: "poolsConsistent a"
  shows "\<exists>a' rest' c um visited.
      emitCommand m H L cb sh tile a rest = Inr (a', rest')
    \<and> rest = visited @ rest'
    \<and> (rest' \<noteq> [] \<longrightarrow> \<not> readyCount H visited < m)
    \<and> (0 < m \<and> \<not> readyCount H visited < m \<longrightarrow> visited \<noteq> [] \<and> isReady H (last visited))
    \<and> (0 < m \<longrightarrow> readyCount H visited \<le> m)
    \<and> (0 < m \<and> rest \<noteq> [] \<longrightarrow> visited \<noteq> [])
    \<and> colorCommandList a' = colorCommandList a @ [c]
    \<and> uniformMap c = Some um
    \<and> dayTextures um = map (textureOf H) (filter (isReady H) visited)
    \<and> tileCommandIndex a' = tileCommandIndex a + 1
    \<and> (\<forall>k. js_get (tileCommands a') k =
            (if k = nat (tileCommandIndex a + 1) then Some c else js_get (tileCommands a) k))
    \<and> (\<forall>k. js_get (tileCommandUniformMaps a') k =
            (if k = nat (tileCommandIndex a + 1) then Some um else js_get (tileCommandUniformMaps a) k))
    \<and> visited = packedPrefix m H 0 rest
    \<and> commandVertexArray c = vertexArray tile"
proof -
  define idx where "idx = nat (tileCommandIndex a + 1)"
  define a1 where "a1 = (case js_get (tileCommands a) idx of
                  None \<Rightarrow>
                    a\<lparr> tileCommands := js_put (tileCommands a) idx (Some newCommand),
                       tileCommandUniformMaps :=
                         js_put (tileCommandUniformMaps a) idx (Some createTileUniformMap) \<rparr>
                | Some c \<Rightarrow> a)"
  have "js_get (tileCommandUniformMaps a1) idx \<noteq> None"
    using pc by (auto simp: a1_def poolsConsistent_iff js_get_put split: option.splits)
  then obtain um0 where um0: "js_get (tileCommandUniformMaps a1) idx = Some um0" by auto
  define um1 where "um1 = (mergeUniformMap um0 cb)
                          \<lparr> tileGeometry := Some (geometry tile),
                            dayIntensity := tileIntensity H L (tileImagery tile) \<rparr>"
  obtain n' um2 rest' where p: "packDayTextures m H L 0 um1 rest = (n', um2, rest')"
    by (cases "packDayTextures m H L 0 um1 rest") auto
  define visited where "visited = packedPrefix m H 0 rest"
  from pack_prefix[OF p] have v12: "rest = visited @ rest'" "n' = readyCount H visited"
    by (simp_all add: visited_def)
  have f1: "visited \<noteq> rest \<Longrightarrow> \<not> readyCount H visited < m"
    using prefix_full[of m H 0 rest] by (simp add: visited_def)
  have f2: "0 < m \<Longrightarrow> \<not> readyCount H visited < m \<Longrightarrow> visited \<noteq> [] \<and> isReady H (last visited)"
    using prefix_last_ready[of 0 m H rest] by (simp add: visited_def)
  have f3: "0 < m \<Longrightarrow> readyCount H visited \<le> m"
    using prefix_bound[of 0 m H rest] by (simp add: visited_def)
  have f4: "0 < m \<Longrightarrow> rest \<noteq> [] \<Longrightarrow> visited \<noteq> []"
    using prefix_nonempty[of 0 m rest H] by (simp add: visited_def)
  have v3: "rest' \<noteq> [] \<longrightarrow> \<not> n' < m"
    using f1 v12 by auto
  have v4: "0 < m \<and> \<not> n' < m \<longrightarrow> visited \<noteq> [] \<and> isReady H (last visited)"
    using f2 v12(2) by blast
  have v5: "0 < m \<longrightarrow> n' \<le> m"
    using f3 v12(2) by blast
  have v6: "0 < m \<and> rest \<noteq> [] \<longrightarrow> visited \<noteq> []"
    using f4 by blast
  note v = v12 v3 v4 v5 v6
  from pack_textures[OF p] have
    t: "n' \<le> length (dayTextures um2)"
       "take n' (dayTextures um2) = map (textureOf H) (filter (isReady H) visited)"
    by (simp_all add: visited_def)
  define um3 where "um3 = um2\<lparr> dayTextures := js_set_length (dayTextures um2) n' \<rparr>"
  have d3: "dayTextures um3 = map (textureOf H) (filter (isReady H) visited)"
    using t by (simp add: um3_def js_set_length_take)
  define command where "command = \<lparr> shaderProgram = Some sh,
                              commandVertexArray = vertexArray tile,
                              uniformMap = Some um3 \<rparr>"
  define a' where "a' = a1\<lparr> tileCommands := js_put (tileCommands a1) idx (Some command),
                          tileCommandUniformMaps :=
                            js_put (tileCommandUniformMaps a1) idx (Some um3),
                          tileCommandIndex := tileCommandIndex a + 1,
                          colorCommandList := colorCommandList a1 @ [command] \<rparr>"
  have e: "emitCommand m H L cb sh tile a rest = Inr (a', rest')"
    unfolding emitCommand_def Let_def
    using um0[unfolded a1_def idx_def] p[unfolded um1_def]
    by (cases "js_get (tileCommands a) (nat (tileCommandIndex a + 1))")
       (simp_all add: a'_def a1_def idx_def um3_def command_def)
  have c1: "colorCommandList a1 = colorCommandList a"
    by (simp add: a1_def split: option.splits)
  have g1: "\<And>k. k \<noteq> idx \<Longrightarrow> js_get (tileCommands a1) k = js_get (tileCommands a) k"
    by (simp add: a1_def js_get_put split: option.splits)
  have g2: "\<And>k. k \<noteq> idx \<Longrightarrow> js_get (tileCommandUniformMaps a1) k = js_get (tileCommandUniformMaps a) k"
    by (simp add: a1_def js_get_put split: option.splits)
  have k1: "\<forall>k. js_get (tileCommands a') k =
            (if k = nat (tileCommandIndex a + 1) then Some command else js_get (tileCommands a) k)"
    using g1 by (simp add: a'_def js_get_put idx_def)
  have k2: "\<forall>k. js_get (tileCommandUniformMaps a') k =
            (if k = nat (tileCommandIndex a + 1) then Some um3 else js_get (tileCommandUniformMaps a) k)"
    using g2 by (simp add: a'_def js_get_put idx_def)
  have cc: "colorCommandList a' = colorCommandList a @ [command]"
    by (simp add: a'_def c1)
  have ti: "tileCommandIndex a' = tileCommandIndex a + 1"
    by (simp add: a'_def)
  have um: "uniformMap command = Some um3"
    by (simp add: command_def)
  show ?thesis
    apply (rule exI[of _ a'], rule exI[of _ rest'], rule exI[of _ command],
           rule exI[of _ um3], rule exI[of _ visited])
    apply (intro conjI)
    subgoal by (rule e)
    subgoal by (rule v12(1))
    subgoal using v3 v12(2) by simp
    subgoal using v4 v12(2) by simp
    subgoal using v5 v12(2) by simp
    subgoal by (rule v6)
    subgoal by (rule cc)
    subgoal by (rule um)
    subgoal by (rule d3)
    subgoal by (rule ti)
    subgoal by (rule k1)
    subgoal by (rule k2)
    subgoal by (rule visited_def)
    subgoal by (simp add: command_def)
    done
qed

lemma batches_step:
  assumes "rest = packedPrefix m H 0 rest @ rest1"
  shows "batches m H rest =
     (if rest1 = [] \<or> m = 0 then [packedPrefix m H 0 rest]
      else packedPrefix m H 0 rest # batches m H rest1)"
proof -
  have d: "drop (length (packedPrefix m H 0 rest)) rest = rest1"
    using assms by (metis append_eq_conv_conj)
  show ?thesis
    by (subst batches.simps) (simp only: Let_def d)
qed

lemma readyCount_zero_last: "readyCount H xs = 0 \<Longrightarrow> xs \<noteq> [] \<Longrightarrow> \<not> isReady H (last xs)"
  by (induction xs) (auto split: if_splits)

lemma ceil_div_one: "0 < k \<Longrightarrow> k \<le> m \<Longrightarrow> (k + m - 1) div m = (1::nat)"
proof -
  assume a: "0 < k" "k \<le> m"
  then obtain j where j: "k = Suc j" by (cases k) auto
  with a have "j < m" by simp
  then have "(j + m) div m = 1" by simp
  then show ?thesis by (simp add: j)
qed

lemma ceil_div_step: "0 < m \<Longrightarrow> 0 < k \<Longrightarrow> (m + k + m - 1) div m = 1 + (k + m - 1) div (m::nat)"
proof -
  assume a: "0 < m" "0 < k"
  then obtain j where j: "k = Suc j" by (cases k) auto
  have "(m + (j + m)) div m = 1 + (j + m) div m" using a by simp
  then show ?thesis by (simp add: j add.assoc)
qed

lemma commandCount_last:
  assumes m: "0 < m" and r: "rest = visited" and kv: "readyCount H visited \<le> m"
    and l: "\<not> readyCount H visited < m \<longrightarrow> visited \<noteq> [] \<and> isReady H (last visited)"
  shows "commandCount m H rest = 1"
proof (cases "readyCount H visited = 0")
  case True
  then show ?thesis by (simp add: commandCount_def r)
next
  case False
  then have p: "0 < readyCount H visited" by simp
  have "readyCount H visited mod m = 0 \<Longrightarrow> readyCount H visited = m"
    using p kv by (cases "readyCount H visited < m") auto
  with l have "\<not> (readyCount H visited mod m = 0 \<and> \<not> isReady H (last visited))" by auto
  with False show ?thesis
    using ceil_div_one[OF p kv] by (simp add: commandCount_def r Let_def)
qed

lemma commandCount_more:
  assumes m: "0 < m" and r: "rest = visited @ rest'" and ne: "rest' \<noteq> []"
    and kv: "readyCount H visited = m"
  shows "commandCount m H rest = 1 + commandCount m H rest'"
proof (cases "readyCount H rest' = 0")
  case True
  have "\<not> isReady H (last rest')" using readyCount_zero_last[OF True ne] .
  with True ne m kv show ?thesis
    using ceil_div_one[of m m] by (simp add: commandCount_def r Let_def)
next
  case False
  then have p: "0 < readyCount H rest'" by simp
  show ?thesis
    using False ne m kv ceil_div_step[OF m p]
    by (simp add: commandCount_def r Let_def)
qed

lemma extends_refl: "extends a [] a"
  by (auto simp add: extends_def Let_def)

lemma extends_single:
  assumes "colorCommandList a' = colorCommandList a @ [c]"
    and "uniformMap c = Some um"
    and "tileCommandIndex a' = tileCommandIndex a + 1"
    and "\<forall>k. js_get (tileCommands a') k =
            (if k = nat (tileCommandIndex a + 1) then Some c else js_get (tileCommands a) k)"
    and "\<forall>k. js_get (tileCommandUniformMaps a') k =
            (if k = nat (tileCommandIndex a + 1) then Some um else js_get (tileCommandUniformMaps a) k)"
  shows "extends a [c] a'"
  using assms by (auto simp: extends_def Let_def)

lemma extends_trans:
  assumes e1: "extends a cs1 a1" and e2: "extends a1 cs2 a2" and ix: "-1 \<le> tileCommandIndex a"
  shows "extends a (cs1 @ cs2) a2"
proof -
  define n0 where "n0 = nat (tileCommandIndex a + 1)"
  have n1: "nat (tileCommandIndex a1 + 1) = n0 + length cs1"
    using e1 ix by (simp add: extends_def Let_def n0_def nat_add_distrib)
  have c: "colorCommandList a2 = colorCommandList a @ cs1 @ cs2"
    using e1 e2 by (simp add: extends_def Let_def)
  have t: "tileCommandIndex a2 = tileCommandIndex a + int (length (cs1 @ cs2))"
    using e1 e2 by (simp add: extends_def Let_def)
  have g1: "js_get (tileCommands a2) k =
              (if n0 \<le> k \<and> k < n0 + length (cs1 @ cs2) then Some ((cs1 @ cs2) ! (k - n0))
               else js_get (tileCommands a) k)" for k
  proof -
    have a: "js_get (tileCommands a2) k =
        (if n0 + length cs1 \<le> k \<and> k < n0 + length cs1 + length cs2
         then Some (cs2 ! (k - (n0 + length cs1))) else js_get (tileCommands a1) k)"
      using e2 n1 by (simp add: extends_def Let_def)
    have b: "js_get (tileCommands a1) k =
        (if n0 \<le> k \<and> k < n0 + length cs1 then Some (cs1 ! (k - n0))
         else js_get (tileCommands a) k)"
      using e1 by (simp add: extends_def Let_def n0_def)
    show ?thesis unfolding a b by (auto simp: nth_append)
  qed
  have g2: "js_get (tileCommandUniformMaps a2) k =
              (if n0 \<le> k \<and> k < n0 + length (cs1 @ cs2) then uniformMap ((cs1 @ cs2) ! (k - n0))
               else js_get (tileCommandUniformMaps a) k)" for k
  proof -
    have a: "js_get (tileCommandUniformMaps a2) k =
        (if n0 + length cs1 \<le> k \<and> k < n0 + length cs1 + length cs2
         then uniformMap (cs2 ! (k - (n0 + length cs1))) else js_get (tileCommandUniformMaps a1) k)"
      using e2 n1 by (simp add: extends_def Let_def)
    have b: "js_get (tileCommandUniformMaps a1) k =
        (if n0 \<le> k \<and> k < n0 + length cs1 then uniformMap (cs1 ! (k - n0))
         else js_get (tileCommandUniformMaps a) k)"
      using e1 by (simp add: extends_def Let_def n0_def)
    show ?thesis unfolding a b by (auto simp: nth_append)
  qed
  show ?thesis
    unfolding extends_def Let_def n0_def[symmetric]
    using c t g1 g2 by blast
qed

lemma extends_index: "extends a cs a' \<Longrightarrow> -1 \<le> tileCommandIndex a \<Longrightarrow> -1 \<le> tileCommandIndex a'"
  by (simp add: extends_def Let_def)

lemma extends_consistent:
  assumes e: "extends a cs a'" and pc: "poolsConsistent a"
    and um: "\<forall>c\<in>set cs. uniformMap c \<noteq> None"
  shows "poolsConsistent a'"
  unfolding poolsConsistent_iff
proof (intro allI impI)
  fix i
  assume h: "js_get (tileCommands a') i \<noteq> None"
  define n0 where "n0 = nat (tileCommandIndex a + 1)"
  show "js_get (tileCommandUniformMaps a') i \<noteq> None"
  proof (cases "n0 \<le> i \<and> i < n0 + length cs")
    case True
    then have "js_get (tileCommandUniformMaps a') i = uniformMap (cs ! (i - n0))"
      using e by (simp add: extends_def Let_def n0_def)
    moreover have "cs ! (i - n0) \<in> set cs" using True by auto
    ultimately show ?thesis using um by auto
  next
    case False
    then have "js_get (tileCommandUniformMaps a') i = js_get (tileCommandUniformMaps a) i"
        "js_get (tileCommands a') i = js_get (tileCommands a) i"
      using e by (auto simp add: extends_def Let_def n0_def)
    with h pc show ?thesis by (simp add: poolsConsistent_iff)
  qed
qed

lemma packedFrom_suffix: "packedFrom m H ys c \<Longrightarrow> packedFrom m H (xs @ ys) c"
  unfolding packedFrom_def
  by (metis append.assoc)

lemma emitTileCommands_run:
  assumes m: "0 < m"
  shows "poolsConsistent a \<Longrightarrow> -1 \<le> tileCommandIndex a \<Longrightarrow>
     \<exists>a' cs. emitTileCommands m H L cb sh tile a rest = Some (Inr a')
        \<and> extends a cs a' \<and> length cs = commandCount m H rest
        \<and> (\<forall>c\<in>set cs. packedFrom m H rest c)
        \<and> concat (map commandTextures cs) = map (textureOf H) (filter (isReady H) rest)
        \<and> map commandPass cs
            = map (\<lambda>visited. (vertexArray tile, batchTextures H visited)) (batches m H rest)"
proof (induction "length rest" arbitrary: rest a rule: less_induct)
  case less
  from emitCommand_step[OF less.prems(1), of m H L cb sh tile rest]
  obtain a1 rest1 c um visited where
    e: "emitCommand m H L cb sh tile a rest = Inr (a1, rest1)"
    and r: "rest = visited @ rest1"
    and full: "rest1 \<noteq> [] \<longrightarrow> \<not> readyCount H visited < m"
    and lst: "0 < m \<and> \<not> readyCount H visited < m \<longrightarrow> visited \<noteq> [] \<and> isReady H (last visited)"
    and bnd: "0 < m \<longrightarrow> readyCount H visited \<le> m"
    and ne: "0 < m \<and> rest \<noteq> [] \<longrightarrow> visited \<noteq> []"
    and cc: "colorCommandList a1 = colorCommandList a @ [c]"
    and um: "uniformMap c = Some um"
    and dt: "dayTextures um = map (textureOf H) (filter (isReady H) visited)"
    and ti: "tileCommandIndex a1 = tileCommandIndex a + 1"
    and k1: "\<forall>k. js_get (tileCommands a1) k =
            (if k = nat (tileCommandIndex a + 1) then Some c else js_get (tileCommands a) k)"
    and k2: "\<forall>k. js_get (tileCommandUniformMaps a1) k =
            (if k = nat (tileCommandIndex a + 1) then Some um else js_get (tileCommandUniformMaps a) k)"
    and vp: "visited = packedPrefix m H 0 rest"
    and va: "commandVertexArray c = vertexArray tile"
    by blast
  have ex1: "extends a [c] a1"
    using extends_single[OF cc um ti k1 k2] .
  have len: "length (dayTextures um) \<le> m"
    using bnd m dt by (simp add: readyCount_def)
  have pf: "packedFrom m H rest c"
    unfolding packedFrom_def
    apply (rule exI[of _ um], rule exI[of _ "[]"], rule exI[of _ visited], rule exI[of _ rest1])
    using um r dt len by simp
  have ct: "commandTextures c = map (textureOf H) (filter (isReady H) visited)"
    using um dt by (simp add: commandTextures_def)
  have cp: "commandPass c = (vertexArray tile, batchTextures H visited)"
    using ct va by (simp add: commandPass_def batchTextures_def)
  note bs = batches_step[of rest m H rest1, OF r[unfolded vp], folded vp]
  have pc1: "poolsConsistent a1"
    using extends_consistent[OF ex1 less.prems(1)] um by simp
  have ix1: "-1 \<le> tileCommandIndex a1"
    using ti less.prems(2) by simp
  show ?case
  proof (cases "rest1 = []")
    case True
    have run: "emitTileCommands m H L cb sh tile a rest = Some (Inr a1)"
      by (subst emitTileCommands.simps) (simp add: e True)
    have cnt: "commandCount m H rest = 1"
      using commandCount_last[OF m _ _ , of rest visited H] r True bnd lst m by simp
    show ?thesis
      apply (rule exI[of _ a1], rule exI[of _ "[c]"])
      using run ex1 cnt pf ct r True cp bs by simp
  next
    case False
    then have "rest \<noteq> []" using r by auto
    with ne m have "visited \<noteq> []" by simp
    then have shorter: "length rest1 < length rest" using r by simp
    from less.hyps[OF shorter pc1 ix1] obtain a2 cs2 where
      run2: "emitTileCommands m H L cb sh tile a1 rest1 = Some (Inr a2)"
      and ex2: "extends a1 cs2 a2" and cnt2: "length cs2 = commandCount m H rest1"
      and pf2: "\<forall>c\<in>set cs2. packedFrom m H rest1 c"
      and ct2: "concat (map commandTextures cs2) = map (textureOf H) (filter (isReady H) rest1)"
      and cp2: "map commandPass cs2
            = map (\<lambda>visited. (vertexArray tile, batchTextures H visited)) (batches m H rest1)"
      by blast
    have run: "emitTileCommands m H L cb sh tile a rest = Some (Inr a2)"
      by (subst emitTileCommands.simps) (simp add: e False run2)
    have kv: "readyCount H visited = m"
      using full False bnd m by auto
    have cnt: "commandCount m H rest = 1 + commandCount m H rest1"
      using commandCount_more[OF m r False kv] .
    have ex: "extends a ([c] @ cs2) a2"
      using extends_trans[OF ex1 ex2 less.prems(2)] .
    have pfs: "\<forall>c'\<in>set (c # cs2). packedFrom m H rest c'"
      using pf pf2 packedFrom_suffix[of m H rest1 _ visited] r by auto
    have cps: "map commandPass (c # cs2)
            = map (\<lambda>visited. (vertexArray tile, batchTextures H visited)) (batches m H rest)"
      using cp cp2 bs False m by simp
    show ?thesis
      apply (rule exI[of _ a2], rule exI[of _ "c # cs2"])
      using run ex cnt cnt2 pfs ct ct2 r cps by simp
  qed
qed

lemma packedFrom_uniformMap: "packedFrom m H stack c \<Longrightarrow> uniformMap c \<noteq> None"
  by (auto simp: packedFrom_def)

lemma emitTileSet_run:
  assumes m: "0 < m"
  shows "poolsConsistent a \<Longrightarrow> -1 \<le> tileCommandIndex a \<Longrightarrow>
     \<exists>a' cs. emitTileSet m T H L cb sh ts a = Some (Inr a')
        \<and> extends a cs a'
        \<and> (\<forall>c\<in>set cs. \<exists>t\<in>set ts. packedFrom m H (tileImagery (T t)) c)
        \<and> map commandPass cs = concat (map (\<lambda>t. tilePasses m H (T t)) ts)"
proof (induction ts arbitrary: a)
  case Nil
  show ?case
    apply (rule exI[of _ a], rule exI[of _ "[]"])
    by (simp add: extends_refl)
next
  case (Cons t ts)
  from emitTileCommands_run[OF m Cons.prems, of H L cb sh "T t" "tileImagery (T t)"]
  obtain a1 cs1 where
    run1: "emitTileCommands m H L cb sh (T t) a (tileImagery (T t)) = Some (Inr a1)"
    and ex1: "extends a cs1 a1"
    and pf1: "\<forall>c\<in>set cs1. packedFrom m H (tileImagery (T t)) c"
    and cp1: "map commandPass cs1 = tilePasses m H (T t)"
    unfolding tilePasses_def by blast
  have pc1: "poolsConsistent a1"
    using extends_consistent[OF ex1 Cons.prems(1)] pf1 packedFrom_uniformMap by blast
  have ix1: "-1 \<le> tileCommandIndex a1"
    using extends_index[OF ex1 Cons.prems(2)] .
  from Cons.IH[OF pc1 ix1] obtain a2 cs2 where
    run2: "emitTileSet m T H L cb sh ts a1 = Some (Inr a2)"
    and ex2: "extends a1 cs2 a2"
    and pf2: "\<forall>c\<in>set cs2. \<exists>t\<in>set ts. packedFrom m H (tileImagery (T t)) c"
    and cp2: "map commandPass cs2 = concat (map (\<lambda>t. tilePasses m H (T t)) ts)"
    by blast
  show ?case
    apply (rule exI[of _ a2], rule exI[of _ "cs1 @ cs2"])
    using run1 run2 extends_trans[OF ex1 ex2 Cons.prems(2)] pf1 pf2 cp1 cp2 by auto
qed

lemma sortTileSet_Nil: "sortTileSet T [] = []"
  by (simp add: sortTileSet_def)

lemma renderOrder_simps [simp]:
  "renderOrder [] = []"
  "renderOrder (None # sets) = renderOrder sets"
  "renderOrder (Some l # sets) = l @ renderOrder sets"
  by (simp_all add: renderOrder_def)

lemma framePasses_simps:
  "framePasses m T H [] = []"
  "framePasses m T H (None # sets) = framePasses m T H sets"
  "framePasses m T H (Some l # sets) =
     concat (map (\<lambda>t. tilePasses m H (T t)) l) @ framePasses m T H sets"
  by (simp_all add: framePasses_def)

lemma selectedTiles_simps [simp]:
  "selectedTiles [] = {}"
  "selectedTiles (None # sets) = selectedTiles sets"
  "selectedTiles (Some l # sets) = set l \<union> selectedTiles sets"
  by (simp_all add: selectedTiles_def)

lemma emitTileSets_run:
  assumes m: "0 < m"
  shows "poolsConsistent a \<Longrightarrow> -1 \<le> tileCommandIndex a \<Longrightarrow>
     \<exists>a' sets' cs. emitTileSets m T H L cb i sets a = Some (Inr (a', sets'))
        \<and> extends a cs a'
        \<and> (\<forall>c\<in>set cs. \<exists>t\<in>selectedTiles sets. packedFrom m H (tileImagery (T t)) c)
        \<and> sets' = map (map_option (sortTileSet T)) sets
        \<and> map commandPass cs = framePasses m T H sets'"
proof (induction sets arbitrary: a i)
  case Nil
  show ?case
    apply (rule exI[of _ a], rule exI[of _ "[]"], rule exI[of _ "[]"])
    by (simp add: extends_refl framePasses_simps)
next
  case (Cons tileSet sets)
  show ?case
  proof (cases "tileSet = None \<or> tileSet = Some []")
    case True
    from Cons.IH[OF Cons.prems, of "i + 1"] obtain a' sets' cs where
      "emitTileSets m T H L cb (i + 1) sets a = Some (Inr (a', sets'))"
      "extends a cs a'"
      "\<forall>c\<in>set cs. \<exists>t\<in>selectedTiles sets. packedFrom m H (tileImagery (T t)) c"
      "sets' = map (map_option (sortTileSet T)) sets"
      "map commandPass cs = framePasses m T H sets'"
      by blast
    with True show ?thesis by (auto simp: framePasses_simps sortTileSet_Nil)
  next
    case False
    then obtain ts where ts: "tileSet = Some ts" "ts \<noteq> []" by auto
    from emitTileSet_run[OF m Cons.prems, of T H L cb i "sortTileSet T ts"]
    obtain a1 cs1 where
      run1: "emitTileSet m T H L cb i (sortTileSet T ts) a = Some (Inr a1)"
      and ex1: "extends a cs1 a1"
      and pf1: "\<forall>c\<in>set cs1. \<exists>t\<in>set ts. packedFrom m H (tileImagery (T t)) c"
      and cp1: "map commandPass cs1 = concat (map (\<lambda>t. tilePasses m H (T t)) (sortTileSet T ts))"
      by (auto simp: sortTileSet_def)
    have pc1: "poolsConsistent a1"
      using extends_consistent[OF ex1 Cons.prems(1)] pf1 packedFrom_uniformMap by blast
    have ix1: "-1 \<le> tileCommandIndex a1"
      using extends_index[OF ex1 Cons.prems(2)] .
    from Cons.IH[OF pc1 ix1, of "i + 1"] obtain a2 sets2 cs2 where
      run2: "emitTileSets m T H L cb (i + 1) sets a1 = Some (Inr (a2, sets2))"
      and ex2: "extends a1 cs2 a2"
      and pf2: "\<forall>c\<in>set cs2. \<exists>t\<in>selectedTiles sets. packedFrom m H (tileImagery (T t)) c"
      and st2: "sets2 = map (map_option (sortTileSet T)) sets"
      and cp2: "map commandPass cs2 = framePasses m T H sets2"
      by blast
    show ?thesis
      apply (rule exI[of _ a2], rule exI[of _ "Some (sortTileSet T ts) # sets2"], rule exI[of _ "cs1 @ cs2"])
      using ts run1 run2 extends_trans[OF ex1 ex2 Cons.prems(2)] pf1 pf2 st2 cp1 cp2
      by (auto simp: framePasses_simps)
  qed
qed

lemma createRenderCommands_run:
  assumes m: "0 < m" and pc: "poolsConsistent a"
  shows "\<exists>a' sets' cs.
      createRenderCommandsForSelectedTiles m T H L cb sets a = Some (Inr (a', sets'))
    \<and> colorCommandList a' = colorCommandList a @ cs
    \<and> tileCommandIndex a' = int (length cs) - 1
    \<and> length (tileCommands a') = length cs - 1
    \<and> (\<forall>j<length cs. js_get (tileCommandUniformMaps a') j = uniformMap (cs ! j))
    \<and> (\<forall>c\<in>set cs. \<exists>t\<in>selectedTiles sets. packedFrom m H (tileImagery (T t)) c)
    \<and> sets' = map (map_option (sortTileSet T)) sets
    \<and> map commandPass cs = framePasses m T H sets'"
proof -
  define a0 where "a0 = a\<lparr>tileCommandIndex := -1\<rparr>"
  have pc0: "poolsConsistent a0" using pc by (simp add: a0_def poolsConsistent_iff)
  have ix0: "-1 \<le> tileCommandIndex a0" by (simp add: a0_def)
  from emitTileSets_run[OF m pc0 ix0, of T H L cb 0 sets] obtain a1 sets1 cs where
    run: "emitTileSets m T H L cb 0 sets a0 = Some (Inr (a1, sets1))"
    and ex: "extends a0 cs a1"
    and pf: "\<forall>c\<in>set cs. \<exists>t\<in>selectedTiles sets. packedFrom m H (tileImagery (T t)) c"
    and st: "sets1 = map (map_option (sortTileSet T)) sets"
    and cp: "map commandPass cs = framePasses m T H sets1"
    by blast
  define a' where "a' = a1\<lparr> tileCommands :=
                          js_set_length (tileCommands a1) (nat (max 0 (tileCommandIndex a1))) \<rparr>"
  have r: "createRenderCommandsForSelectedTiles m T H L cb sets a = Some (Inr (a', sets1))"
    using run by (simp add: createRenderCommandsForSelectedTiles_def a0_def[symmetric] a'_def)
  have t1: "tileCommandIndex a1 = int (length cs) - 1"
    using ex by (simp add: extends_def Let_def a0_def)
  have l: "length (tileCommands a') = length cs - 1"
    using t1 by (simp add: a'_def length_js_set_length)
  have u: "\<forall>j<length cs. js_get (tileCommandUniformMaps a') j = uniformMap (cs ! j)"
    using ex by (simp add: extends_def Let_def a0_def a'_def)
  have c: "colorCommandList a' = colorCommandList a @ cs"
    using ex by (simp add: extends_def Let_def a0_def a'_def)
  show ?thesis
    apply (rule exI[of _ a'], rule exI[of _ sets1], rule exI[of _ cs])
    using r c t1 l u pf st cp by (simp add: a'_def)
qed

lemma commandCount_claimed:
  assumes m: "0 < m"
    and c: "readyCount H tis = 0 \<or> readyCount H tis mod m \<noteq> 0 \<or> isReady H (last tis)"
  shows "commandCount m H tis = claimedCommandCount m H tis"
proof (cases "readyCount H tis = 0")
  case True
  have "(m - 1) div m = 0" using m by simp
  with True show ?thesis by (simp add: commandCount_def claimedCommandCount_def)
next
  case False
  then obtain j where j: "readyCount H tis = Suc j" by (cases "readyCount H tis") auto
  have "(j + m) div m = Suc (j div m)" using m by simp
  then have ge: "max 1 ((readyCount H tis + m - 1) div m) = (readyCount H tis + m - 1) div m"
    by (simp add: j)
  have ex: "\<not> (readyCount H tis mod m = 0 \<and> \<not> isReady H (last tis))"
    using False c by auto
  show ?thesis
    unfolding commandCount_def claimedCommandCount_def Let_def ge
    using False ex by simp
qed

lemma packedFrom_length: "packedFrom m H stack c \<Longrightarrow> length (commandTextures c) \<le> m"
  by (auto simp: packedFrom_def commandTextures_def)

lemma commandCount_positive: "0 < m \<Longrightarrow> 1 \<le> commandCount m H tis"
proof (cases "readyCount H tis = 0")
  case True
  then show ?thesis by (simp add: commandCount_def)
next
  case False
  assume m: "0 < m"
  from False obtain j where j: "readyCount H tis = Suc j" by (cases "readyCount H tis") auto
  have "(j + m) div m = Suc (j div m)" using m by simp
  then have "1 \<le> (readyCount H tis + m - 1) div m" by (simp add: j)
  with False show ?thesis by (simp add: commandCount_def Let_def)
qed


subsection \<open>Claims about the command assembler\<close>

text \<open>
  Claim C5, amended. With at least one texture unit, the assembler walks the imagery stack of
  every selected tile in order: each command packs the textures of the ready entries of the
  next run of the stack, at most \<open>maxTextures\<close> of them, and skips the others, and at least
  one command is pushed for the tile. The number of commands is the number of passes of the
  loop; when no entry is ready, or the number of ready entries is not a multiple of
  \<open>maxTextures\<close>, or the last entry of the stack is ready, it is
  \<open>max 1 \<lceil>readyCount / maxTextures\<rceil>\<close>.
\<close>

theorem commands_per_tile:
  assumes "0 < maxTextures" and "poolsConsistent a" and "-1 \<le> tileCommandIndex a"
  shows "\<exists>a' cs.
      emitTileCommands maxTextures H L centralBodyUniformMap shader tile a (tileImagery tile)
        = Some (Inr a')
    \<and> colorCommandList a' = colorCommandList a @ cs
    \<and> map commandPass cs = tilePasses maxTextures H tile
    \<and> concat (map commandTextures cs)
          = map (textureOf H) (filter (isReady H) (tileImagery tile))
    \<and> (\<forall>c\<in>set cs. length (commandTextures c) \<le> maxTextures)
    \<and> 1 \<le> length cs
    \<and> length cs = commandCount maxTextures H (tileImagery tile)
    \<and> (readyCount H (tileImagery tile) = 0
         \<or> readyCount H (tileImagery tile) mod maxTextures \<noteq> 0
         \<or> isReady H (last (tileImagery tile))
        \<longrightarrow> length cs = claimedCommandCount maxTextures H (tileImagery tile))"
proof -
  from emitTileCommands_run[OF assms(1-3), of H L centralBodyUniformMap shader tile "tileImagery tile"]
  obtain a' cs where
    run: "emitTileCommands maxTextures H L centralBodyUniformMap shader tile a (tileImagery tile)
            = Some (Inr a')"
    and ex: "extends a cs a'"
    and cnt: "length cs = commandCount maxTextures H (tileImagery tile)"
    and pf: "\<forall>c\<in>set cs. packedFrom maxTextures H (tileImagery tile) c"
    and ct: "concat (map commandTextures cs)
          = map (textureOf H) (filter (isReady H) (tileImagery tile))"
    and cp: "map commandPass cs = tilePasses maxTextures H tile"
    unfolding tilePasses_def by blast
  have c: "colorCommandList a' = colorCommandList a @ cs"
    using ex by (simp add: extends_def Let_def)
  have l: "readyCount H (tileImagery tile) = 0
         \<or> readyCount H (tileImagery tile) mod maxTextures \<noteq> 0
         \<or> isReady H (last (tileImagery tile))
        \<longrightarrow> length cs = claimedCommandCount maxTextures H (tileImagery tile)"
    using cnt commandCount_claimed[OF assms(1), of H "tileImagery tile"] by simp
  have p: "1 \<le> length cs"
    using cnt commandCount_positive[OF assms(1), of H "tileImagery tile"] by simp
  have b: "\<forall>c\<in>set cs. length (commandTextures c) \<le> maxTextures"
    using pf packedFrom_length by blast
  show ?thesis
    apply (rule exI[of _ a'], rule exI[of _ cs])
    apply (intro conjI)
    subgoal by (rule run)
    subgoal by (rule c)
    subgoal by (rule cp)
    subgoal by (rule ct)
    subgoal by (rule b)
    subgoal by (rule p)
    subgoal by (rule cnt)
    subgoal by (rule l)
    done
qed

text \<open>
  The theorem at a stack of three entries whose last one is ready: one command, with the
  textures of the first and the third entry.
\<close>

theorem commands_per_tile_witness:
  "0 < (8::nat) \<and> poolsConsistent emptyAssembler \<and> -1 \<le> tileCommandIndex emptyAssembler
   \<and> isReady exampleHeap (last (tileImagery (exampleTile [skeleton 1, skeleton 0, skeleton 2])))
   \<and> (\<exists>a' cs.
      emitTileCommands 8 exampleHeap exampleLayers Map.empty 2
          (exampleTile [skeleton 1, skeleton 0, skeleton 2]) emptyAssembler
          (tileImagery (exampleTile [skeleton 1, skeleton 0, skeleton 2]))
        = Some (Inr a')
    \<and> colorCommandList a' = colorCommandList emptyAssembler @ cs
    \<and> map commandPass cs = [(Some 0, [Some 1, Some 2])]
    \<and> length cs = claimedCommandCount 8 exampleHeap
          (tileImagery (exampleTile [skeleton 1, skeleton 0, skeleton 2]))
    \<and> length cs = 1)"
proof -
  have h1: "0 < (8::nat)" by simp
  have h2: "poolsConsistent emptyAssembler"
    by (simp add: poolsConsistent_def emptyAssembler_def)
  have h3: "-1 \<le> tileCommandIndex emptyAssembler"
    by (simp add: emptyAssembler_def)
  have h4: "isReady exampleHeap (last (tileImagery (exampleTile [skeleton 1, skeleton 0, skeleton 2])))"
    by (simp add: isReady_def exampleHeap_def exampleTile_def skeleton_def)
  have tp: "tilePasses 8 exampleHeap (exampleTile [skeleton 1, skeleton 0, skeleton 2])
              = [(Some 0, [Some 1, Some 2])]"
    by (simp add: tilePasses_def batches.simps batchTextures_def textureOf_def isReady_def
        exampleHeap_def exampleTile_def skeleton_def)
  from commands_per_tile[OF h1 h2 h3, of exampleHeap exampleLayers Map.empty 2
         "exampleTile [skeleton 1, skeleton 0, skeleton 2]"]
  obtain a' cs where
    run: "emitTileCommands 8 exampleHeap exampleLayers Map.empty 2
          (exampleTile [skeleton 1, skeleton 0, skeleton 2]) emptyAssembler
          (tileImagery (exampleTile [skeleton 1, skeleton 0, skeleton 2])) = Some (Inr a')"
    and c: "colorCommandList a' = colorCommandList emptyAssembler @ cs"
    and cp: "map commandPass cs
               = tilePasses 8 exampleHeap (exampleTile [skeleton 1, skeleton 0, skeleton 2])"
    and l: "readyCount exampleHeap (tileImagery (exampleTile [skeleton 1, skeleton 0, skeleton 2])) = 0
         \<or> readyCount exampleHeap (tileImagery (exampleTile [skeleton 1, skeleton 0, skeleton 2])) mod 8 \<noteq> 0
         \<or> isReady exampleHeap (last (tileImagery (exampleTile [skeleton 1, skeleton 0, skeleton 2])))
        \<longrightarrow> length cs = claimedCommandCount 8 exampleHeap
               (tileImagery (exampleTile [skeleton 1, skeleton 0, skeleton 2]))"
    by blast
  have l': "length cs = claimedCommandCount 8 exampleHeap
               (tileImagery (exampleTile [skeleton 1, skeleton 0, skeleton 2]))"
    using l h4 by blast
  have cp': "map commandPass cs = [(Some 0, [Some 1, Some 2])]"
    using cp tp by simp
  have one: "length cs = 1"
    using arg_cong[OF cp', of length] by simp
  have e: "\<exists>a' cs.
      emitTileCommands 8 exampleHeap exampleLayers Map.empty 2
          (exampleTile [skeleton 1, skeleton 0, skeleton 2]) emptyAssembler
          (tileImagery (exampleTile [skeleton 1, skeleton 0, skeleton 2]))
        = Some (Inr a')
    \<and> colorCommandList a' = colorCommandList emptyAssembler @ cs
    \<and> map commandPass cs = [(Some 0, [Some 1, Some 2])]
    \<and> length cs = claimedCommandCount 8 exampleHeap
          (tileImagery (exampleTile [skeleton 1, skeleton 0, skeleton 2]))
    \<and> length cs = 1"
    apply (rule exI[of _ a'], rule exI[of _ cs])
    by (intro conjI run c cp' l' one)
  show ?thesis
    by (intro conjI h1 h2 h3 h4 e)
qed

text \<open>
  Claim C5 as stated fails: with eight texture units, a stack of eight ready entries followed
  by one that is not ready gets two commands, while \<open>\<lceil>8 / 8\<rceil> = 1\<close>.
\<close>

theorem commandCount_claim_counterexample:
  "commandsPushed (emitTileCommands 8 exampleHeap exampleLayers Map.empty 8
       (exampleTile trailingStack) emptyAssembler trailingStack) = Some 2
   \<and> claimedCommandCount 8 exampleHeap trailingStack = 1"
proof -
  have h1: "0 < (8::nat)" by simp
  have h2: "poolsConsistent emptyAssembler"
    by (simp add: poolsConsistent_def emptyAssembler_def)
  have h3: "-1 \<le> tileCommandIndex emptyAssembler"
    by (simp add: emptyAssembler_def)
  have k: "readyCount exampleHeap trailingStack = 8"
    by (simp add: readyCount_def isReady_def exampleHeap_def trailingStack_def skeleton_def)
  have l: "\<not> isReady exampleHeap (last trailingStack)"
    by (simp add: isReady_def exampleHeap_def trailingStack_def skeleton_def)
  have cc: "commandCount 8 exampleHeap trailingStack = 2"
    using k l by (simp add: commandCount_def)
  from emitTileCommands_run[OF h1 h2 h3, of exampleHeap exampleLayers Map.empty 8
         "exampleTile trailingStack" trailingStack]
  obtain a' cs where
    run: "emitTileCommands 8 exampleHeap exampleLayers Map.empty 8
            (exampleTile trailingStack) emptyAssembler trailingStack = Some (Inr a')"
    and ex: "extends emptyAssembler cs a'"
    and cnt: "length cs = commandCount 8 exampleHeap trailingStack"
    by blast
  have "colorCommandList a' = cs"
    using ex by (simp add: extends_def Let_def emptyAssembler_def)
  with run cnt cc have "commandsPushed (emitTileCommands 8 exampleHeap exampleLayers Map.empty 8
       (exampleTile trailingStack) emptyAssembler trailingStack) = Some 2"
    by (simp add: commandsPushed_def)
  moreover have "claimedCommandCount 8 exampleHeap trailingStack = 1"
    using k by (simp add: claimedCommandCount_def)
  ultimately show ?thesis by simp
qed

text \<open>
  Claim C6 on the code: one selected tile without imagery pushes one command, and the
  command pool is left with length zero, one less than the number of commands pushed.
\<close>

theorem pool_truncation_drops_last_command:
  "poolAndPushed (createRenderCommandsForSelectedTiles 8 (\<lambda>_. exampleTile []) exampleHeap
     exampleLayers Map.empty [Some [(0, 0, 0)]] emptyAssembler) = Some (0, 1)"
  by (simp add: createRenderCommandsForSelectedTiles_def sortTileSet_def
      emitTileCommands.simps emitCommand_def poolAndPushed_def exampleHeap_def
      exampleLayers_def skeleton_def exampleTile_def emptyAssembler_def js_get_def js_put_def
      js_set_length_def mergeUniformMap_def createTileUniformMap_def newCommand_def
      tileIntensity_def Let_def)

text \<open>
  Claim C10. With at least one texture unit, \<^verbatim>\<open>createRenderCommandsForSelectedTiles\<close>
  pushes one command per pass of the frame, in the order of the passes. The \<open>j\<close>-th command
  draws the tile of the \<open>j\<close>-th pass, and the \<^verbatim>\<open>dayTextures\<close> of its uniform map are
  exactly the textures of the ready entries of the run that pass visited: as many as the pass
  packed, and nothing of an earlier frame or batch behind them. The uniform map is the one
  pooled at index \<open>j\<close>.
\<close>

theorem dayTextures_trimmed_to_batch:
  assumes "0 < maxTextures" and "poolsConsistent a"
  shows "\<exists>a' sets' cs.
      createRenderCommandsForSelectedTiles maxTextures T H L centralBodyUniformMap
          buckets a = Some (Inr (a', sets'))
    \<and> sets' = map (map_option (sortTileSet T)) buckets
    \<and> colorCommandList a' = colorCommandList a @ cs
    \<and> map commandPass cs = framePasses maxTextures T H sets'
    \<and> (\<forall>j<length cs.
          uniformMap (cs ! j) \<noteq> None
        \<and> js_get (tileCommandUniformMaps a') j = uniformMap (cs ! j))"
proof -
  from createRenderCommands_run[OF assms, of T H L centralBodyUniformMap buckets]
  obtain a' sets' cs where
    r: "createRenderCommandsForSelectedTiles maxTextures T H L centralBodyUniformMap
          buckets a = Some (Inr (a', sets'))"
    and c: "colorCommandList a' = colorCommandList a @ cs"
    and u: "\<forall>j<length cs. js_get (tileCommandUniformMaps a') j = uniformMap (cs ! j)"
    and p: "\<forall>c\<in>set cs. \<exists>t\<in>selectedTiles buckets.
              packedFrom maxTextures H (tileImagery (T t)) c"
    and st: "sets' = map (map_option (sortTileSet T)) buckets"
    and cp: "map commandPass cs = framePasses maxTextures T H sets'"
    by blast
  have n: "\<forall>j<length cs. uniformMap (cs ! j) \<noteq> None"
    using p packedFrom_uniformMap nth_mem by blast
  show ?thesis
    apply (rule exI[of _ a'], rule exI[of _ sets'], rule exI[of _ cs])
    using r c u n st cp by simp
qed

text \<open>
  The theorem at one selected tile with an unloaded and a ready entry, and pools whose
  first uniform map still holds three textures: one command, whose \<^verbatim>\<open>dayTextures\<close>
  hold the one texture of the ready entry.
\<close>

theorem dayTextures_trimmed_to_batch_witness:
  "0 < (8::nat) \<and> poolsConsistent staleAssembler
   \<and> (\<exists>a' sets' cs.
      createRenderCommandsForSelectedTiles 8 (\<lambda>_. exampleTile [skeleton 0, skeleton 1])
          exampleHeap exampleLayers Map.empty [None, Some [(0, 0, 0)]] staleAssembler
        = Some (Inr (a', sets'))
    \<and> sets' = [None, Some [(0, 0, 0)]]
    \<and> colorCommandList a' = cs
    \<and> map commandPass cs = [(Some 0, [Some 1])]
    \<and> length cs = 1
    \<and> uniformMap (cs ! 0) \<noteq> None
    \<and> js_get (tileCommandUniformMaps a') 0 = uniformMap (cs ! 0))"
proof -
  have h1: "0 < (8::nat)" by simp
  have h2: "poolsConsistent staleAssembler"
    by (simp add: poolsConsistent_def staleAssembler_def js_get_def)
  have srt: "map (map_option (sortTileSet (\<lambda>_. exampleTile [skeleton 0, skeleton 1])))
               [None, Some [(0, 0, 0)]] = [None, Some [(0, 0, 0)]]"
    by (simp add: sortTileSet_def)
  have fp: "framePasses 8 (\<lambda>_. exampleTile [skeleton 0, skeleton 1]) exampleHeap
              [None, Some [(0, 0, 0)]] = [(Some 0, [Some 1])]"
    by (simp add: framePasses_def renderOrder_def tilePasses_def batches.simps
        batchTextures_def textureOf_def isReady_def exampleHeap_def exampleTile_def skeleton_def)
  from dayTextures_trimmed_to_batch[OF h1 h2, of "\<lambda>_. exampleTile [skeleton 0, skeleton 1]"
        exampleHeap exampleLayers Map.empty "[None, Some [(0, 0, 0)]]"]
  obtain a' sets' cs where
    r: "createRenderCommandsForSelectedTiles 8 (\<lambda>_. exampleTile [skeleton 0, skeleton 1])
          exampleHeap exampleLayers Map.empty [None, Some [(0, 0, 0)]] staleAssembler
        = Some (Inr (a', sets'))"
    and st: "sets' = map (map_option (sortTileSet (\<lambda>_. exampleTile [skeleton 0, skeleton 1])))
               [None, Some [(0, 0, 0)]]"
    and c0: "colorCommandList a' = colorCommandList staleAssembler @ cs"
    and cp: "map commandPass cs
               = framePasses 8 (\<lambda>_. exampleTile [skeleton 0, skeleton 1]) exampleHeap sets'"
    and u: "\<forall>j<length cs. uniformMap (cs ! j) \<noteq> None
              \<and> js_get (tileCommandUniformMaps a') j = uniformMap (cs ! j)"
    by blast
  have c: "colorCommandList a' = cs"
    using c0 by (simp add: staleAssembler_def)
  have st': "sets' = [None, Some [(0, 0, 0)]]"
    using st srt by simp
  have cp': "map commandPass cs = [(Some 0, [Some 1])]"
    using cp fp st' by simp
  have one: "length cs = 1"
    using arg_cong[OF cp', of length] by simp
  have u0: "uniformMap (cs ! 0) \<noteq> None"
    "js_get (tileCommandUniformMaps a') 0 = uniformMap (cs ! 0)"
    using u one by simp_all
  have e: "\<exists>a' sets' cs.
      createRenderCommandsForSelectedTiles 8 (\<lambda>_. exampleTile [skeleton 0, skeleton 1])
          exampleHeap exampleLayers Map.empty [None, Some [(0, 0, 0)]] staleAssembler
        = Some (Inr (a', sets'))
    \<and> sets' = [None, Some [(0, 0, 0)]]
    \<and> colorCommandList a' = cs
    \<and> map commandPass cs = [(Some 0, [Some 1])]
    \<and> length cs = 1
    \<and> uniformMap (cs ! 0) \<noteq> None
    \<and> js_get (tileCommandUniformMaps a') 0 = uniformMap (cs ! 0)"
    apply (rule exI[of _ a'], rule exI[of _ sets'], rule exI[of _ cs])
    by (intro conjI r st' c cp' one u0)
  show ?thesis
    by (intro conjI h1 h2 e)
qed

subsection \<open>Claims about layer events and destruction\<close>

text \<open>
  Claim C8 on the code: the layer collection is \<open>[0, 1]\<close> and the resident tile holds one
  entry of layer \<open>0\<close> followed by one of layer \<open>1\<close>. The layer-moved handler for layer \<open>0\<close>
  with \<open>newIndex = oldIndex = 0\<close> leaves the stack in the opposite order: the index of the
  next layer's block is taken before the moved block is spliced out and is used after.
\<close>

theorem layer_moved_to_same_index_reorders:
  "tileImagery (tiles twoLayerSurface (0, 0, 0)) = [skeleton 10, skeleton 11]
   \<and> tileImagery (tiles (onLayerMoved 0 0 0 twoLayerSurface) (0, 0, 0))
       = [skeleton 11, skeleton 10]"
  by code_simp

text \<open>
  Claim C9 on the code: on a surface as the constructor leaves it, \<^verbatim>\<open>destroy\<close> reads
  \<^verbatim>\<open>this.levelZeroTiles\<close>, which is \<^verbatim>\<open>undefined\<close>, and raises before it destroys anything.
\<close>

theorem destroy_raises_TypeError:
  "map_sum id destroy (CentralBodySurface exampleDescription exampleHeap) = Inr (Inl TypeError)"
  by (simp add: CentralBodySurface_def exampleDescription_def destroy_def)


subsection \<open>Claims about the screen-space error\<close>

lemma columbus_distance: "distanceSquaredToTile columbusFrame northernTile = 1"
proof -
  have "pi / 3 - pi / 2 < 0" using pi_gt_zero by simp
  then show ?thesis
    by (simp add: distanceSquaredToTile_def columbusFrame_def northernTile_def exampleTile_def
        projectedCorner_def subtract3_def dot3_def Let_def)
qed

text \<open>
  Claim C4 as stated fails in Columbus View: for a tile whose extent starts at latitude
  \<open>\<pi>/3\<close> the code computes \<open>768\<close>, the formula with the latitude factor \<open>cos (\<pi>/3)\<close> gives
  \<open>384\<close>.
\<close>

theorem latitude_factor_counterexample:
  "fst (screenSpaceError exampleCollaborators columbusFrame (0, 0, 0) northernTile) = Finite 768
   \<and> claimedScreenSpaceError exampleCollaborators columbusFrame (0, 0, 0) northernTile = 384"
proof -
  have t: "tan (0.5 * (pi / 2)) = 1" "tan (pi / 2 / 2) = 1" using tan_45 by simp_all
  have f: "fovy columbusFrame = pi / 2" "sceneMode columbusFrame = COLUMBUS_VIEW"
    "clientHeight columbusFrame = 768"
    by (simp_all add: columbusFrame_def)
  have e: "getLevelMaximumGeometricError exampleCollaborators (level (0, 0, 0)) = 2"
    by (simp add: exampleCollaborators_def)
  have l: "latitudeClosestToEquator (extent northernTile) = pi / 3"
    using pi_gt_zero by (simp add: latitudeClosestToEquator_def northernTile_def)
  have a: "fst (screenSpaceError exampleCollaborators columbusFrame (0, 0, 0) northernTile) = Finite 768"
    by (simp add: screenSpaceError_def Let_def f e tan_45 columbus_distance jsDivide_def)
  have b: "claimedScreenSpaceError exampleCollaborators columbusFrame (0, 0, 0) northernTile = 384"
    by (simp add: claimedScreenSpaceError_def f e tan_45 l columbus_distance cos_60)
  show ?thesis using a b by simp
qed

text \<open>
  Claim C4, amended. In 3D and in Columbus View the screen-space error is the quotient
  \<open>(maxGeometricError * height) / (2 * distance * tan (fovy / 2))\<close> with
  \<open>distance = sqrt (distanceSquaredToTile ...)\<close>, and the distance is stored on the tile.
  The maximum geometric error of the level is scaled by the cosine of the latitude closest
  to the equator in 3D only; in Columbus View it is taken as it is. The quotient is the
  division of JavaScript: a number when the divisor is not zero.
\<close>

theorem screenSpaceError_formula:
  assumes "sceneMode frame = SCENE3D \<or> sceneMode frame = COLUMBUS_VIEW"
  shows "screenSpaceError env frame t tile =
      (jsDivide ((if sceneMode frame = SCENE3D
                  then cos (latitudeClosestToEquator (extent tile)) else 1)
                   * getLevelMaximumGeometricError env (level t) * clientHeight frame)
                (2 * sqrt (distanceSquaredToTile frame tile) * tan (fovy frame / 2))
                (tan (fovy frame / 2) < 0),
       tile\<lparr> distance := sqrt (distanceSquaredToTile frame tile) \<rparr>)
    \<and> (2 * sqrt (distanceSquaredToTile frame tile) * tan (fovy frame / 2) \<noteq> 0 \<longrightarrow>
         fst (screenSpaceError env frame t tile) =
           Finite (((if sceneMode frame = SCENE3D
                     then cos (latitudeClosestToEquator (extent tile)) else 1)
                      * getLevelMaximumGeometricError env (level t) * clientHeight frame)
                   / (2 * sqrt (distanceSquaredToTile frame tile) * tan (fovy frame / 2))))"
proof -
  have h: "0.5 * fovy frame = fovy frame / 2" by simp
  from assms have m: "sceneMode frame \<noteq> SCENE2D" by auto
  have e: "screenSpaceError env frame t tile =
      (jsDivide ((if sceneMode frame = SCENE3D
                  then cos (latitudeClosestToEquator (extent tile)) else 1)
                   * getLevelMaximumGeometricError env (level t) * clientHeight frame)
                (2 * sqrt (distanceSquaredToTile frame tile) * tan (fovy frame / 2))
                (tan (fovy frame / 2) < 0),
       tile\<lparr> distance := sqrt (distanceSquaredToTile frame tile) \<rparr>)"
    unfolding screenSpaceError_def Let_def h
    using m by simp
  show ?thesis
    unfolding e by (simp add: jsDivide_def)
qed

text \<open>The theorem at the 3D frame and the northern tile, where the error is \<open>384\<close>.\<close>

theorem screenSpaceError_formula_witness:
  "(sceneMode globeFrame = SCENE3D \<or> sceneMode globeFrame = COLUMBUS_VIEW)
   \<and> 2 * sqrt (distanceSquaredToTile globeFrame northernTile) * tan (fovy globeFrame / 2) \<noteq> 0
   \<and> screenSpaceError exampleCollaborators globeFrame (0, 0, 0) northernTile =
      (Finite 384, northernTile\<lparr> distance := 1 \<rparr>)"
proof -
  have h1: "sceneMode globeFrame = SCENE3D \<or> sceneMode globeFrame = COLUMBUS_VIEW"
    by (simp add: globeFrame_def)
  have d: "distanceSquaredToTile globeFrame northernTile = 1"
    by (simp add: distanceSquaredToTile_def globeFrame_def columbusFrame_def northernTile_def
        exampleTile_def subtract3_def dot3_def Let_def)
  have fv: "fovy globeFrame = pi / 2" "clientHeight globeFrame = 768"
    "sceneMode globeFrame = SCENE3D"
    by (simp_all add: globeFrame_def columbusFrame_def)
  have t: "tan (pi / 2 / 2) = 1" using tan_45 by simp
  have l: "latitudeClosestToEquator (extent northernTile) = pi / 3"
    using pi_gt_zero by (simp add: latitudeClosestToEquator_def northernTile_def)
  have g: "getLevelMaximumGeometricError exampleCollaborators (level (0, 0, 0)) = 2"
    by (simp add: exampleCollaborators_def)
  have h2: "2 * sqrt (distanceSquaredToTile globeFrame northernTile) * tan (fovy globeFrame / 2) \<noteq> 0"
    by (simp add: d fv tan_45)
  note e = screenSpaceError_formula[OF h1, of exampleCollaborators "(0, 0, 0)" northernTile]
  have v: "screenSpaceError exampleCollaborators globeFrame (0, 0, 0) northernTile =
      (Finite 384, northernTile\<lparr> distance := 1 \<rparr>)"
    using e[THEN conjunct1] by (simp add: d fv t l g cos_60 tan_45 jsDivide_def)
  show ?thesis by (intro conjI h1 h2 v)
qed

subsection \<open>The selection\<close>

lemma markTileRendered_fields [simp]:
  "tiles (markTileRendered t s) = tiles s"
  "imageries (markTileRendered t s) = imageries s"
  "tilesToRenderByTextureCount (markTileRendered t s) = tilesToRenderByTextureCount s"
  "tileTraversalQueue (markTileRendered t s) = tileTraversalQueue s"
  "tileLoadQueue (markTileRendered t s) = tileLoadQueue s"
  "loadInsertionPoint (markTileRendered t s) = loadInsertionPoint s"
  "maxScreenSpaceError (markTileRendered t s) = maxScreenSpaceError s"
  by (simp_all add: markTileRendered_def)

lemma queueTileLoad_fields [simp]:
  "tiles (queueTileLoad t s) = tiles s"
  "imageries (queueTileLoad t s) = imageries s"
  "tilesToRenderByTextureCount (queueTileLoad t s) = tilesToRenderByTextureCount s"
  "tileTraversalQueue (queueTileLoad t s) = tileTraversalQueue s"
  "loadInsertionPoint (queueTileLoad t s) = loadInsertionPoint s"
  "maxScreenSpaceError (queueTileLoad t s) = maxScreenSpaceError s"
  by (simp_all add: queueTileLoad_def insertBeforeInsertionPoint_def Let_def split: option.splits)

lemma set_insert_before:
  "set (takeWhile P q @ [t] @ dropWhile P q) = insert t (set q)"
proof -
  have "set (takeWhile P q) \<union> set (dropWhile P q) = set q"
    by (metis set_append takeWhile_dropWhile_id)
  then show ?thesis by auto
qed

lemma queueTileLoad_queue:
  "set (tileLoadQueue (queueTileLoad t s)) =
     (if loadInsertionPoint s = Some t then set (tileLoadQueue s)
      else insert t (set (tileLoadQueue s)))"
proof (cases "loadInsertionPoint s = Some t")
  case True
  then show ?thesis by (simp add: queueTileLoad_def insertBeforeInsertionPoint_def)
next
  case False
  show ?thesis
  proof (cases "loadInsertionPoint s")
    case None
    then show ?thesis
      by (auto simp add: queueTileLoad_def insertBeforeInsertionPoint_def Let_def)
  next
    case (Some b)
    have "tileLoadQueue (queueTileLoad t s) =
            takeWhile (\<lambda>u. u \<noteq> b) (removeAll t (tileLoadQueue s)) @ [t]
              @ dropWhile (\<lambda>u. u \<noteq> b) (removeAll t (tileLoadQueue s))"
      using Some False by (simp add: queueTileLoad_def insertBeforeInsertionPoint_def Let_def)
    then have "set (tileLoadQueue (queueTileLoad t s)) = insert t (set (removeAll t (tileLoadQueue s)))"
      by (simp only: set_insert_before)
    with False show ?thesis by auto
  qed
qed

lemma queueTileLoad_member:
  assumes "\<forall>b. loadInsertionPoint s = Some b \<longrightarrow> b \<in> set (tileLoadQueue s)"
  shows "set (tileLoadQueue (queueTileLoad t s)) = insert t (set (tileLoadQueue s))"
  using assms by (auto simp: queueTileLoad_queue)

lemma fold_queueChildLoad:
  assumes "fold queueChildLoad cs (b, s) = (b', s')"
    and "\<forall>p. loadInsertionPoint s = Some p \<longrightarrow> p \<in> set (tileLoadQueue s)"
  shows "tiles s' = tiles s \<and> imageries s' = imageries s
     \<and> tilesToRenderByTextureCount s' = tilesToRenderByTextureCount s
     \<and> tileTraversalQueue s' = tileTraversalQueue s
     \<and> loadInsertionPoint s' = loadInsertionPoint s
     \<and> maxScreenSpaceError s' = maxScreenSpaceError s
     \<and> b' = (b \<and> list_all (\<lambda>c. renderable (tiles s c)) cs)
     \<and> set (tileLoadQueue s') =
         set (tileLoadQueue s) \<union> {c \<in> set cs. \<not> doneLoading (tiles s c)}"
  using assms
proof (induction cs arbitrary: b s)
  case Nil
  then show ?case by simp
next
  case (Cons c cs)
  define s2 where "s2 = (if \<not> doneLoading (tiles s c) then queueTileLoad c (markTileRendered c s)
                         else markTileRendered c s)"
  define b2 where "b2 = (if \<not> renderable (tiles s c) then False else b)"
  have step: "queueChildLoad c (b, s) = (b2, s2)"
    by (simp add: queueChildLoad_def Let_def s2_def b2_def)
  have f: "tiles s2 = tiles s" "imageries s2 = imageries s"
     "tilesToRenderByTextureCount s2 = tilesToRenderByTextureCount s"
     "tileTraversalQueue s2 = tileTraversalQueue s"
     "loadInsertionPoint s2 = loadInsertionPoint s"
     "maxScreenSpaceError s2 = maxScreenSpaceError s"
    by (simp_all add: s2_def)
  have ipm: "\<forall>p. loadInsertionPoint (markTileRendered c s) = Some p
                \<longrightarrow> p \<in> set (tileLoadQueue (markTileRendered c s))"
    using Cons.prems(2) by simp
  have q2: "set (tileLoadQueue s2) =
              set (tileLoadQueue s) \<union> (if \<not> doneLoading (tiles s c) then {c} else {})"
    using queueTileLoad_member[OF ipm, of c] by (auto simp add: s2_def)
  have ip2: "\<forall>p. loadInsertionPoint s2 = Some p \<longrightarrow> p \<in> set (tileLoadQueue s2)"
    using Cons.prems(2) q2 f(5) by auto
  from Cons.prems(1) step have r: "fold queueChildLoad cs (b2, s2) = (b', s')" by simp
  from Cons.IH[OF r ip2] f q2 show ?case
    by (auto simp: b2_def)
qed

lemma sse_tile:
  "\<exists>d. snd (screenSpaceError env frame t tile) = tile\<lparr> distance := d \<rparr>"
proof (cases "sceneMode frame = SCENE2D")
  case True
  then have "snd (screenSpaceError env frame t tile) = tile\<lparr> distance := distance tile \<rparr>"
    by (simp add: screenSpaceError_def)
  then show ?thesis by blast
next
  case False
  then have "snd (screenSpaceError env frame t tile)
               = tile\<lparr> distance := sqrt (distanceSquaredToTile frame tile) \<rparr>"
    by (simp add: screenSpaceError_def Let_def)
  then show ?thesis by blast
qed

lemma fold_newTile:
  "fold (\<lambda>c T. T(c := v)) cs T0 = (\<lambda>u. if u \<in> set cs then v else T0 u)"
  by (induction cs arbitrary: T0) auto

lemma quadChildren_level: "c \<in> set (quadChildren t) \<Longrightarrow> level c = level t + 1"
  by (cases t) (auto simp: quadChildren_def level_def)

lemma quadChildren_not_self: "t \<notin> set (quadChildren t)"
  using quadChildren_level[of t t] by auto

lemma quadChildren_nonempty: "quadChildren t \<noteq> []"
  by (cases t) (simp add: quadChildren_def)

lemma isReady_abs: "isReady H = (\<lambda>ti. state (H (imagery ti)) = READY)"
  by (rule ext) (simp add: isReady_def)

lemma addTileToRenderList_fields:
  "tilesToRenderByTextureCount (addTileToRenderList t s) = renderListAfterAdding t s"
  "tiles (addTileToRenderList t s) = tiles s"
  "tileTraversalQueue (addTileToRenderList t s) = tileTraversalQueue s"
  "tileLoadQueue (addTileToRenderList t s) = tileLoadQueue s"
  "loadInsertionPoint (addTileToRenderList t s) = loadInsertionPoint s"
  by (simp_all add: addTileToRenderList_def renderListAfterAdding_def Let_def readyCount_def
      isReady_abs)

lemma renderListAfterAdding_cong:
  "imageries s' = imageries s \<Longrightarrow> tilesToRenderByTextureCount s' = tilesToRenderByTextureCount s
     \<Longrightarrow> tileImagery (tiles s' t) = tileImagery (tiles s t)
     \<Longrightarrow> renderListAfterAdding t s' = renderListAfterAdding t s"
  by (simp add: renderListAfterAdding_def)

lemma fold_enqueueIfVisible:
  "tiles (fold (enqueueIfVisible frame) cs s) = tiles s
   \<and> tilesToRenderByTextureCount (fold (enqueueIfVisible frame) cs s) = tilesToRenderByTextureCount s
   \<and> tileLoadQueue (fold (enqueueIfVisible frame) cs s) = tileLoadQueue s
   \<and> loadInsertionPoint (fold (enqueueIfVisible frame) cs s) = loadInsertionPoint s
   \<and> tileTraversalQueue (fold (enqueueIfVisible frame) cs s)
       = tileTraversalQueue s @ filter (\<lambda>c. isTileVisible frame (tiles s c)) cs"
  by (induction cs arbitrary: s) (simp_all add: enqueueIfVisible_def)

lemma getChildren_step:
  assumes g: "getChildren t s = (cs, s1)"
    and wf: "\<forall>u cs. children (tiles s u) = Some cs \<longrightarrow> cs = quadChildren u"
  shows "cs = quadChildren t \<and> imageries s1 = imageries s
      \<and> tilesToRenderByTextureCount s1 = tilesToRenderByTextureCount s
      \<and> tileTraversalQueue s1 = tileTraversalQueue s
      \<and> maxScreenSpaceError s1 = maxScreenSpaceError s
      \<and> tileLoadQueue s1 = tileLoadQueue s
      \<and> loadInsertionPoint s1 = loadInsertionPoint s
      \<and> children (tiles s1 t) = Some (quadChildren t)
      \<and> tileImagery (tiles s1 t) = tileImagery (tiles s t)
      \<and> (children (tiles s t) \<noteq> None \<longrightarrow> tiles s1 = tiles s)
      \<and> (children (tiles s t) = None \<longrightarrow> (\<forall>c\<in>set (quadChildren t). tiles s1 c = newTile))
      \<and> (\<forall>u cs. children (tiles s1 u) = Some cs \<longrightarrow> cs = quadChildren u)"
proof (cases "children (tiles s t)")
  case None
  define T2 where "T2 = ((\<lambda>u. if u \<in> set (quadChildren t) then newTile else tiles s u))
                (t := (tiles s t)\<lparr> children := Some (quadChildren t) \<rparr>)"
  have nt: "t \<notin> set (quadChildren t)" by (rule quadChildren_not_self)
  from g None have e1: "cs = quadChildren t"
    by (simp add: getChildren_def Let_def)
  from g None nt have e2: "s1 = s\<lparr> tiles := T2 \<rparr>"
    by (auto simp add: getChildren_def Let_def fold_newTile T2_def)
  have c1: "children (T2 t) = Some (quadChildren t)" by (simp add: T2_def)
  have c2: "tileImagery (T2 t) = tileImagery (tiles s t)" by (simp add: T2_def)
  have c3: "\<forall>c\<in>set (quadChildren t). T2 c = newTile"
    using nt by (auto simp add: T2_def)
  have c4: "\<forall>u cs. children (T2 u) = Some cs \<longrightarrow> cs = quadChildren u"
  proof (intro allI impI)
    fix u cs assume h: "children (T2 u) = Some cs"
    show "cs = quadChildren u"
    proof (cases "u = t")
      case True
      with h c1 show ?thesis by simp
    next
      case False
      show ?thesis
      proof (cases "u \<in> set (quadChildren t)")
        case True
        with h False show ?thesis by (simp add: T2_def newTile_def)
      next
        case f2: False
        with h False have "children (tiles s u) = Some cs" by (simp add: T2_def)
        then show ?thesis using wf by blast
      qed
    qed
  qed
  have t1: "tiles s1 = T2" by (simp add: e2)
  show ?thesis
    unfolding t1
    apply (intro conjI)
    subgoal by (rule e1)
    subgoal by (simp add: e2)
    subgoal by (simp add: e2)
    subgoal by (simp add: e2)
    subgoal by (simp add: e2)
    subgoal by (simp add: e2)
    subgoal by (simp add: e2)
    subgoal by (rule c1)
    subgoal by (rule c2)
    subgoal using None by simp
    subgoal using c3 by blast
    subgoal by (rule c4)
    done
next
  case (Some cs0)
  have c0: "cs0 = quadChildren t" using wf[rule_format, OF Some] .
  with g Some have e: "cs = quadChildren t" "s1 = s"
    by (simp_all add: getChildren_def)
  show ?thesis
    unfolding e(2)
    apply (intro conjI)
    subgoal by (rule e(1))
    subgoal by (rule refl)
    subgoal by (rule refl)
    subgoal by (rule refl)
    subgoal by (rule refl)
    subgoal by (rule refl)
    subgoal by (rule refl)
    subgoal using Some c0 by simp
    subgoal by (rule refl)
    subgoal by simp
    subgoal using Some by simp
    subgoal by (rule wf)
    done
qed

lemma queueChildren_step:
  assumes lv: "level t \<noteq> maxLevel env"
    and wf: "\<forall>u cs. children (tiles s u) = Some cs \<longrightarrow> cs = quadChildren u"
    and ip: "\<forall>p. loadInsertionPoint s = Some p \<longrightarrow> p \<in> set (tileLoadQueue s)"
  shows "\<exists>s5. queueChildrenLoadAndDetermineIfChildrenAreAllRenderable env t s
              = (allChildrenRenderable s t, s5)
     \<and> imageries s5 = imageries s
     \<and> tilesToRenderByTextureCount s5 = tilesToRenderByTextureCount s
     \<and> tileTraversalQueue s5 = tileTraversalQueue s
     \<and> maxScreenSpaceError s5 = maxScreenSpaceError s
     \<and> children (tiles s5 t) = Some (quadChildren t)
     \<and> tileImagery (tiles s5 t) = tileImagery (tiles s t)
     \<and> (allChildrenRenderable s t \<longrightarrow> tiles s5 = tiles s)
     \<and> (\<forall>u cs. children (tiles s5 u) = Some cs \<longrightarrow> cs = quadChildren u)
     \<and> (\<forall>p. loadInsertionPoint s5 = Some p \<longrightarrow> p \<in> set (tileLoadQueue s5))
     \<and> (\<forall>c\<in>set (quadChildren t). \<not> doneLoading (tiles s5 c) \<longrightarrow> c \<in> set (tileLoadQueue s5))"
proof -
  obtain cs s1 where g: "getChildren t s = (cs, s1)" by (cases "getChildren t s") auto
  note G = getChildren_step[OF g wf]
  from G have g_cs: "cs = quadChildren t" by blast
  from G have g_im: "imageries s1 = imageries s" by blast
  from G have g_tr: "tilesToRenderByTextureCount s1 = tilesToRenderByTextureCount s" by blast
  from G have g_tq: "tileTraversalQueue s1 = tileTraversalQueue s" by blast
  from G have g_ms: "maxScreenSpaceError s1 = maxScreenSpaceError s" by blast
  from G have g_lq: "tileLoadQueue s1 = tileLoadQueue s" by blast
  from G have g_ip: "loadInsertionPoint s1 = loadInsertionPoint s" by blast
  from G have g_ch: "children (tiles s1 t) = Some (quadChildren t)" by blast
  from G have g_ti: "tileImagery (tiles s1 t) = tileImagery (tiles s t)" by blast
  from G have g_same: "children (tiles s t) \<noteq> None \<longrightarrow> tiles s1 = tiles s" by blast
  from G have g_new: "children (tiles s t) = None \<longrightarrow> (\<forall>c\<in>set (quadChildren t). tiles s1 c = newTile)"
    by blast
  from G have g_wf: "\<forall>u cs. children (tiles s1 u) = Some cs \<longrightarrow> cs = quadChildren u" by blast
  obtain b s5 where f: "fold queueChildLoad cs (True, s1) = (b, s5)"
    by (cases "fold queueChildLoad cs (True, s1)") auto
  have ip1: "\<forall>p. loadInsertionPoint s1 = Some p \<longrightarrow> p \<in> set (tileLoadQueue s1)"
    using ip by (simp only: g_ip g_lq)
  note F = fold_queueChildLoad[OF f ip1]
  from F have f_t: "tiles s5 = tiles s1" by blast
  from F have f_im: "imageries s5 = imageries s1" by blast
  from F have f_tr: "tilesToRenderByTextureCount s5 = tilesToRenderByTextureCount s1" by blast
  from F have f_tq: "tileTraversalQueue s5 = tileTraversalQueue s1" by blast
  from F have f_ip: "loadInsertionPoint s5 = loadInsertionPoint s1" by blast
  from F have f_ms: "maxScreenSpaceError s5 = maxScreenSpaceError s1" by blast
  from F have f_b: "b = (True \<and> list_all (\<lambda>c. renderable (tiles s1 c)) cs)" by blast
  from F have f_lq: "set (tileLoadQueue s5) =
         set (tileLoadQueue s1) \<union> {c \<in> set cs. \<not> doneLoading (tiles s1 c)}" by blast
  have r: "queueChildrenLoadAndDetermineIfChildrenAreAllRenderable env t s = (b, s5)"
    using lv g f by (simp add: queueChildrenLoadAndDetermineIfChildrenAreAllRenderable_def)
  have b: "b = allChildrenRenderable s t"
  proof (cases "children (tiles s t)")
    case None
    then have "\<forall>c\<in>set (quadChildren t). \<not> renderable (tiles s1 c)"
      using g_new by (simp add: newTile_def)
    then have "\<not> list_all (\<lambda>c. renderable (tiles s1 c)) (quadChildren t)"
      using quadChildren_nonempty[of t] by (cases "quadChildren t") auto
    with f_b g_cs None show ?thesis by (simp add: allChildrenRenderable_def)
  next
    case (Some cs0)
    have "cs0 = quadChildren t" using wf[rule_format, OF Some] .
    moreover have "tiles s1 = tiles s" using g_same Some by simp
    ultimately show ?thesis using f_b g_cs Some by (simp add: allChildrenRenderable_def)
  qed
  have same: "allChildrenRenderable s t \<longrightarrow> tiles s5 = tiles s"
  proof
    assume "allChildrenRenderable s t"
    then have "children (tiles s t) \<noteq> None"
      by (auto simp: allChildrenRenderable_def split: option.splits)
    with g_same f_t show "tiles s5 = tiles s" by simp
  qed
  have lq: "\<forall>c\<in>set (quadChildren t). \<not> doneLoading (tiles s5 c) \<longrightarrow> c \<in> set (tileLoadQueue s5)"
    unfolding f_lq f_t g_cs by blast
  have ip5: "\<forall>p. loadInsertionPoint s5 = Some p \<longrightarrow> p \<in> set (tileLoadQueue s5)"
    unfolding f_lq f_ip using ip1 by blast
  show ?thesis
    apply (rule exI[of _ s5])
    apply (intro conjI)
    subgoal using r b by simp
    subgoal by (simp only: f_im g_im)
    subgoal by (simp only: f_tr g_tr)
    subgoal by (simp only: f_tq g_tq)
    subgoal by (simp only: f_ms g_ms)
    subgoal by (simp only: f_t g_ch)
    subgoal by (simp only: f_t g_ti)
    subgoal by (rule same)
    subgoal unfolding f_t by (rule g_wf)
    subgoal by (rule ip5)
    subgoal by (rule lq)
    done
qed

lemma allChildrenRenderable_cong:
  assumes "children (tiles s' t) = children (tiles s t)"
    and "\<forall>c. c \<noteq> t \<longrightarrow> renderable (tiles s' c) = renderable (tiles s c)"
    and "\<forall>u cs. children (tiles s u) = Some cs \<longrightarrow> cs = quadChildren u"
  shows "allChildrenRenderable s' t = allChildrenRenderable s t"
proof (cases "children (tiles s t)")
  case None
  with assms(1) show ?thesis by (simp add: allChildrenRenderable_def)
next
  case (Some cs)
  have c: "cs = quadChildren t" using assms(3)[rule_format, OF Some] .
  have "\<forall>c\<in>set cs. c \<noteq> t" using c quadChildren_not_self[of t] by auto
  then have "\<forall>c\<in>set cs. renderable (tiles s' c) = renderable (tiles s c)"
    using assms(2) by blast
  then have "(\<forall>c\<in>set cs. renderable (tiles s' c)) = (\<forall>c\<in>set cs. renderable (tiles s c))"
    by blast
  then have "list_all (\<lambda>c. renderable (tiles s' c)) cs = list_all (\<lambda>c. renderable (tiles s c)) cs"
    by (simp only: list_all_iff)
  with Some assms(1) show ?thesis by (simp add: allChildrenRenderable_def)
qed

lemma visitTile_step:
  assumes inv: "traversalInvariant env s" and q: "tileTraversalQueue s = t # q"
  shows "\<exists>s'. visitTile env frame t (s\<lparr> tileTraversalQueue := q \<rparr>) = Inr s'
     \<and> traversalInvariant env s'
     \<and> (if jsLess (sseOf env frame s t) (maxScreenSpaceError s)
            \<or> \<not> (level t < maxLevel env \<and> allChildrenRenderable s t)
         then tilesToRenderByTextureCount s' = renderListAfterAdding t s
              \<and> tileTraversalQueue s' = q
         else tilesToRenderByTextureCount s' = tilesToRenderByTextureCount s
              \<and> tileTraversalQueue s' =
                  q @ filter (\<lambda>c. isTileVisible frame (tiles s c)) (quadChildren t))
     \<and> (\<not> jsLess (sseOf env frame s t) (maxScreenSpaceError s) \<and> level t < maxLevel env
          \<longrightarrow> (\<forall>c\<in>set (quadChildren t).
                 \<not> doneLoading (tiles s' c) \<longrightarrow> c \<in> set (tileLoadQueue s')))"
proof -
  from inv have wf: "\<forall>u cs. children (tiles s u) = Some cs \<longrightarrow> cs = quadChildren u"
    and lvq: "\<forall>u\<in>set (tileTraversalQueue s). level u \<le> maxLevel env"
    and ip: "\<forall>b. loadInsertionPoint s = Some b \<longrightarrow> b \<in> set (tileLoadQueue s)"
    unfolding traversalInvariant_def by blast+
  have lt: "level t \<le> maxLevel env" using lvq q by simp
  have lq: "\<forall>u\<in>set q. level u \<le> maxLevel env" using lvq q by simp
  define s3 where "s3 = (let s1 = (s\<lparr> tileTraversalQueue := q \<rparr>)\<lparr> tilesVisited := tilesVisited s + 1 \<rparr>;
                             s2 = markTileRendered t s1
                         in if maxDepth s2 < level t then s2\<lparr> maxDepth := level t \<rparr> else s2)"
  have s3f: "tiles s3 = tiles s" "imageries s3 = imageries s"
    "tilesToRenderByTextureCount s3 = tilesToRenderByTextureCount s"
    "tileTraversalQueue s3 = q" "tileLoadQueue s3 = tileLoadQueue s"
    "loadInsertionPoint s3 = loadInsertionPoint s"
    "maxScreenSpaceError s3 = maxScreenSpaceError s"
    by (simp_all add: s3_def Let_def)
  obtain sse tile' where ss: "screenSpaceError env frame t (tiles s t) = (sse, tile')"
    by (cases "screenSpaceError env frame t (tiles s t)") auto
  have sse: "sse = sseOf env frame s t" using ss by (simp add: sseOf_def)
  obtain d where tile': "tile' = (tiles s t)\<lparr> distance := d \<rparr>"
    using sse_tile[of env frame t "tiles s t"] ss by auto
  define s4 where "s4 = s3\<lparr> tiles := (tiles s3)(t := tile') \<rparr>"
  have s4f: "imageries s4 = imageries s"
    "tilesToRenderByTextureCount s4 = tilesToRenderByTextureCount s"
    "tileTraversalQueue s4 = q" "tileLoadQueue s4 = tileLoadQueue s"
    "loadInsertionPoint s4 = loadInsertionPoint s"
    "maxScreenSpaceError s4 = maxScreenSpaceError s"
    "tiles s4 = (tiles s)(t := tile')"
    by (simp_all add: s4_def s3f)
  have ch4: "children (tiles s4 u) = children (tiles s u)" for u
    by (simp add: s4f tile')
  have ti4: "tileImagery (tiles s4 t) = tileImagery (tiles s t)"
    by (simp add: s4f tile')
  have oth4: "u \<noteq> t \<Longrightarrow> tiles s4 u = tiles s u" for u
    by (simp add: s4f)
  have wf4: "\<forall>u cs. children (tiles s4 u) = Some cs \<longrightarrow> cs = quadChildren u"
    using wf by (simp only: ch4)
  have ip4: "\<forall>p. loadInsertionPoint s4 = Some p \<longrightarrow> p \<in> set (tileLoadQueue s4)"
    using ip by (simp only: s4f)
  have vt: "visitTile env frame t (s\<lparr> tileTraversalQueue := q \<rparr>) =
      (if jsLess sse (maxScreenSpaceError s) then Inr (addTileToRenderList t s4)
       else
         (case queueChildrenLoadAndDetermineIfChildrenAreAllRenderable env t s4 of
            (True, s5) \<Rightarrow>
              (case children (tiles s5 t) of
                 None \<Rightarrow> Inl TypeError
               | Some cs \<Rightarrow> Inr (fold (enqueueIfVisible frame) cs s5))
          | (False, s5) \<Rightarrow> Inr (addTileToRenderList t s5)))"
    unfolding visitTile_def Let_def
    using ss by (simp add: s4_def s3_def Let_def)
  have acr: "allChildrenRenderable s4 t = allChildrenRenderable s t"
    by (rule allChildrenRenderable_cong) (simp_all add: ch4 oth4 wf)
  text \<open>the render outcome from a state that agrees with \<open>s4\<close>\<close>
  have render: "\<exists>s'. Inr (addTileToRenderList t sx) = (Inr s' :: js_error + Surface)
       \<and> traversalInvariant env s'
       \<and> tilesToRenderByTextureCount s' = renderListAfterAdding t s
       \<and> tileTraversalQueue s' = q
       \<and> (\<forall>c\<in>set (quadChildren t). \<not> doneLoading (tiles s' c) \<longrightarrow> c \<in> set (tileLoadQueue s')) = lqp"
    if a: "imageries sx = imageries s" "tilesToRenderByTextureCount sx = tilesToRenderByTextureCount s"
       "tileTraversalQueue sx = q" "tileImagery (tiles sx t) = tileImagery (tiles s t)"
       "\<forall>u cs. children (tiles sx u) = Some cs \<longrightarrow> cs = quadChildren u"
       "\<forall>p. loadInsertionPoint sx = Some p \<longrightarrow> p \<in> set (tileLoadQueue sx)"
       "lqp = (\<forall>c\<in>set (quadChildren t). \<not> doneLoading (tiles sx c) \<longrightarrow> c \<in> set (tileLoadQueue sx))"
    for sx lqp
  proof -
    have i: "traversalInvariant env (addTileToRenderList t sx)"
      unfolding traversalInvariant_def addTileToRenderList_fields
      using a(5,6) lq a(3) by simp
    have r: "tilesToRenderByTextureCount (addTileToRenderList t sx) = renderListAfterAdding t s"
      unfolding addTileToRenderList_fields
      by (rule renderListAfterAdding_cong) (simp_all add: a)
    show ?thesis
      apply (rule exI[of _ "addTileToRenderList t sx"])
      using i r a(3) a(7) by (simp add: addTileToRenderList_fields)
  qed
  show ?thesis
  proof (cases "jsLess sse (maxScreenSpaceError s)")
    case True
    from render[of s4, OF s4f(1) s4f(2) s4f(3) ti4 wf4 ip4 refl] obtain s' where
      "Inr (addTileToRenderList t s4) = (Inr s' :: js_error + Surface)"
      "traversalInvariant env s'"
      "tilesToRenderByTextureCount s' = renderListAfterAdding t s"
      "tileTraversalQueue s' = q"
      by blast
    with True vt sse show ?thesis by auto
  next
    case nls: False
    show ?thesis
    proof (cases "level t = maxLevel env")
      case True
      have qc: "queueChildrenLoadAndDetermineIfChildrenAreAllRenderable env t s4 = (False, s4)"
        using True by (simp add: queueChildrenLoadAndDetermineIfChildrenAreAllRenderable_def)
      from render[of s4, OF s4f(1) s4f(2) s4f(3) ti4 wf4 ip4 refl] obtain s' where
        "Inr (addTileToRenderList t s4) = (Inr s' :: js_error + Surface)"
        "traversalInvariant env s'"
        "tilesToRenderByTextureCount s' = renderListAfterAdding t s"
        "tileTraversalQueue s' = q"
        by blast
      with True nls vt sse qc show ?thesis by auto
    next
      case False
      with lt have below: "level t < maxLevel env" by simp
      from queueChildren_step[OF False wf4 ip4] obtain s5 where
        qc: "queueChildrenLoadAndDetermineIfChildrenAreAllRenderable env t s4
              = (allChildrenRenderable s4 t, s5)"
        and f_im: "imageries s5 = imageries s4"
        and f_tr: "tilesToRenderByTextureCount s5 = tilesToRenderByTextureCount s4"
        and f_tq: "tileTraversalQueue s5 = tileTraversalQueue s4"
        and f_ms: "maxScreenSpaceError s5 = maxScreenSpaceError s4"
        and f_ch: "children (tiles s5 t) = Some (quadChildren t)"
        and f_ti: "tileImagery (tiles s5 t) = tileImagery (tiles s4 t)"
        and f_same: "allChildrenRenderable s4 t \<longrightarrow> tiles s5 = tiles s4"
        and f_wf: "\<forall>u cs. children (tiles s5 u) = Some cs \<longrightarrow> cs = quadChildren u"
        and f_ip: "\<forall>p. loadInsertionPoint s5 = Some p \<longrightarrow> p \<in> set (tileLoadQueue s5)"
        and f_lq: "\<forall>c\<in>set (quadChildren t). \<not> doneLoading (tiles s5 c) \<longrightarrow> c \<in> set (tileLoadQueue s5)"
        by blast
      show ?thesis
      proof (cases "allChildrenRenderable s t")
        case True
        define s' where "s' = fold (enqueueIfVisible frame) (quadChildren t) s5"
        note E = fold_enqueueIfVisible[of frame "quadChildren t" s5]
        from E have e_t: "tiles s' = tiles s5" unfolding s'_def by blast
        from E have e_tr: "tilesToRenderByTextureCount s' = tilesToRenderByTextureCount s5"
          unfolding s'_def by blast
        from E have e_lq: "tileLoadQueue s' = tileLoadQueue s5" unfolding s'_def by blast
        from E have e_ip: "loadInsertionPoint s' = loadInsertionPoint s5" unfolding s'_def by blast
        from E have e_tq: "tileTraversalQueue s' =
            tileTraversalQueue s5 @ filter (\<lambda>c. isTileVisible frame (tiles s5 c)) (quadChildren t)"
          unfolding s'_def by blast
        have t5: "tiles s5 = tiles s4" using f_same acr True by simp
        have vis: "filter (\<lambda>c. isTileVisible frame (tiles s5 c)) (quadChildren t)
                 = filter (\<lambda>c. isTileVisible frame (tiles s c)) (quadChildren t)"
        proof (rule filter_cong[OF refl])
          fix c assume "c \<in> set (quadChildren t)"
          then have "c \<noteq> t" using quadChildren_not_self[of t] by blast
          then have "tiles s5 c = tiles s c" using oth4[of c] t5 by simp
          then show "isTileVisible frame (tiles s5 c) = isTileVisible frame (tiles s c)" by simp
        qed
        have v: "visitTile env frame t (s\<lparr> tileTraversalQueue := q \<rparr>) = Inr s'"
          using vt nls qc acr True f_ch by (simp add: s'_def)
        have tq: "tileTraversalQueue s' = q @ filter (\<lambda>c. isTileVisible frame (tiles s c)) (quadChildren t)"
          using e_tq vis f_tq s4f(3) by simp
        have lv': "\<forall>u\<in>set (tileTraversalQueue s'). level u \<le> maxLevel env"
          unfolding tq using lq below quadChildren_level[of _ t] by auto
        have i: "traversalInvariant env s'"
          unfolding traversalInvariant_def e_t e_lq e_ip
          using f_wf f_ip lv' by blast
        have tr: "tilesToRenderByTextureCount s' = tilesToRenderByTextureCount s"
          using e_tr f_tr s4f(2) by simp
        have l: "\<forall>c\<in>set (quadChildren t). \<not> doneLoading (tiles s' c) \<longrightarrow> c \<in> set (tileLoadQueue s')"
          unfolding e_t e_lq by (rule f_lq)
        show ?thesis
          apply (rule exI[of _ s'])
          using v i tr tq l nls sse True below by simp
      next
        case False
        have a1: "imageries s5 = imageries s" using f_im s4f(1) by simp
        have a2: "tilesToRenderByTextureCount s5 = tilesToRenderByTextureCount s"
          using f_tr s4f(2) by simp
        have a3: "tileTraversalQueue s5 = q" using f_tq s4f(3) by simp
        have a4: "tileImagery (tiles s5 t) = tileImagery (tiles s t)" using f_ti ti4 by simp
        from render[of s5, OF a1 a2 a3 a4 f_wf f_ip refl] obtain s' where
          r: "Inr (addTileToRenderList t s5) = (Inr s' :: js_error + Surface)"
          "traversalInvariant env s'"
          "tilesToRenderByTextureCount s' = renderListAfterAdding t s"
          "tileTraversalQueue s' = q"
          "(\<forall>c\<in>set (quadChildren t). \<not> doneLoading (tiles s' c) \<longrightarrow> c \<in> set (tileLoadQueue s')) =
           (\<forall>c\<in>set (quadChildren t). \<not> doneLoading (tiles s5 c) \<longrightarrow> c \<in> set (tileLoadQueue s5))"
          by blast
        have v: "visitTile env frame t (s\<lparr> tileTraversalQueue := q \<rparr>) = Inr s'"
          using vt nls qc acr False r(1) by simp
        have l: "\<forall>c\<in>set (quadChildren t). \<not> doneLoading (tiles s' c) \<longrightarrow> c \<in> set (tileLoadQueue s')"
          using r(5) f_lq by blast
        show ?thesis
          apply (rule exI[of _ s'])
          using v r(2,3,4) l False by simp
      qed
    qed
  qed
qed

lemma fold_enqueueRoot:
  "tiles (fold (enqueueRoot frame) roots s) = tiles s
   \<and> set (tileTraversalQueue (fold (enqueueRoot frame) roots s))
        \<subseteq> set (tileTraversalQueue s) \<union> set roots
   \<and> ((\<forall>p. loadInsertionPoint s = Some p \<longrightarrow> p \<in> set (tileLoadQueue s))
        \<longrightarrow> (\<forall>p. loadInsertionPoint (fold (enqueueRoot frame) roots s) = Some p
               \<longrightarrow> p \<in> set (tileLoadQueue (fold (enqueueRoot frame) roots s))))"
proof (induction roots arbitrary: s)
  case Nil
  show ?case by simp
next
  case (Cons r roots)
  define s1 where "s1 = (if \<not> doneLoading (tiles s r) then queueTileLoad r s else s)"
  have t1: "tiles s1 = tiles s" "tileTraversalQueue s1 = tileTraversalQueue s"
    "loadInsertionPoint s1 = loadInsertionPoint s"
    by (simp_all add: s1_def)
  have q1: "(\<forall>p. loadInsertionPoint s = Some p \<longrightarrow> p \<in> set (tileLoadQueue s))
            \<Longrightarrow> (\<forall>p. loadInsertionPoint s1 = Some p \<longrightarrow> p \<in> set (tileLoadQueue s1))"
  proof -
    assume a: "\<forall>p. loadInsertionPoint s = Some p \<longrightarrow> p \<in> set (tileLoadQueue s)"
    show "\<forall>p. loadInsertionPoint s1 = Some p \<longrightarrow> p \<in> set (tileLoadQueue s1)"
    proof (cases "doneLoading (tiles s r)")
      case True
      then have "s1 = s" by (simp add: s1_def)
      with a show ?thesis by simp
    next
      case False
      then have e: "s1 = queueTileLoad r s" by (simp add: s1_def)
      show ?thesis
        unfolding e queueTileLoad_member[OF a] queueTileLoad_fields
        using a by blast
    qed
  qed
  define s2 where "s2 = enqueueRoot frame r s"
  have s2e: "s2 = (if renderable (tiles s1 r) \<and> isTileVisible frame (tiles s1 r)
         then s1\<lparr> tileTraversalQueue := tileTraversalQueue s1 @ [r] \<rparr>
         else s1\<lparr> tilesCulled := tilesCulled s1 + 1 \<rparr>)"
    by (simp add: s2_def enqueueRoot_def Let_def s1_def)
  have t2: "tiles s2 = tiles s" "loadInsertionPoint s2 = loadInsertionPoint s1"
    "tileLoadQueue s2 = tileLoadQueue s1"
    by (simp_all add: s2e t1)
  have tq2: "set (tileTraversalQueue s2) \<subseteq> set (tileTraversalQueue s) \<union> {r}"
    by (auto simp add: s2e t1)
  have q2: "(\<forall>p. loadInsertionPoint s = Some p \<longrightarrow> p \<in> set (tileLoadQueue s))
            \<Longrightarrow> (\<forall>p. loadInsertionPoint s2 = Some p \<longrightarrow> p \<in> set (tileLoadQueue s2))"
    unfolding t2 by (rule q1)
  note IH = Cons.IH[of s2]
  from IH have i1: "tiles (fold (enqueueRoot frame) roots s2) = tiles s2" by blast
  from IH have i2: "set (tileTraversalQueue (fold (enqueueRoot frame) roots s2))
        \<subseteq> set (tileTraversalQueue s2) \<union> set roots" by blast
  from IH have i3: "(\<forall>p. loadInsertionPoint s2 = Some p \<longrightarrow> p \<in> set (tileLoadQueue s2))
        \<longrightarrow> (\<forall>p. loadInsertionPoint (fold (enqueueRoot frame) roots s2) = Some p
               \<longrightarrow> p \<in> set (tileLoadQueue (fold (enqueueRoot frame) roots s2)))" by blast
  have f: "fold (enqueueRoot frame) (r # roots) s = fold (enqueueRoot frame) roots s2"
    by (simp add: s2_def)
  show ?case
    unfolding f
    apply (intro conjI)
    subgoal using i1 t2 by simp
    subgoal using i2 tq2 by auto
    subgoal using i3 q2 by blast
    done
qed

lemma start_invariant:
  assumes wf: "wellFormedTree s0" and r: "private_levelZeroTiles s0 = Some roots"
  shows "traversalInvariant env (startTraversal frame roots s0)"
proof -
  define s1 where "s1 = markInsertionPoint
          (s0\<lparr> tilesToRenderByTextureCount :=
                 map (map_option (\<lambda>_. [])) (tilesToRenderByTextureCount s0),
               tileTraversalQueue := [],
               maxDepth := 0, tilesVisited := 0, tilesCulled := 0, tilesRendered := 0,
               texturesRendered := 0 \<rparr>)"
  have e: "startTraversal frame roots s0 = fold (enqueueRoot frame) roots s1"
    by (simp add: startTraversal_def s1_def)
  have t1: "tiles s1 = tiles s0" "tileTraversalQueue s1 = []"
    by (simp_all add: s1_def markInsertionPoint_def)
  have ip1: "\<forall>p. loadInsertionPoint s1 = Some p \<longrightarrow> p \<in> set (tileLoadQueue s1)"
    by (cases "tileLoadQueue s0") (simp_all add: s1_def markInsertionPoint_def)
  note F = fold_enqueueRoot[of frame roots s1]
  from F have f1: "tiles (fold (enqueueRoot frame) roots s1) = tiles s1" by blast
  from F have f2: "set (tileTraversalQueue (fold (enqueueRoot frame) roots s1))
        \<subseteq> set (tileTraversalQueue s1) \<union> set roots" by blast
  from F ip1 have f3: "\<forall>p. loadInsertionPoint (fold (enqueueRoot frame) roots s1) = Some p
               \<longrightarrow> p \<in> set (tileLoadQueue (fold (enqueueRoot frame) roots s1))" by blast
  from wf have w1: "\<forall>u cs. children (tiles s0 u) = Some cs \<longrightarrow> cs = quadChildren u"
    unfolding wellFormedTree_def by blast
  from wf r have w2: "\<forall>r\<in>set roots. level r = 0"
    unfolding wellFormedTree_def by blast
  have lv: "\<forall>u\<in>set (tileTraversalQueue (fold (enqueueRoot frame) roots s1)). level u \<le> maxLevel env"
    using f2 t1(2) w2 by auto
  show ?thesis
    unfolding e traversalInvariant_def f1 t1(1)
    using w1 lv f3 by blast
qed

lemma traversal_invariant:
  assumes wf: "wellFormedTree s0" and tr: "traversal env frame s0 s"
  shows "traversalInvariant env s"
  using tr
proof (induction rule: traversal.induct)
  case (start roots)
  then show ?case using start_invariant[OF wf] by blast
next
  case (turn s t q s')
  from visitTile_step[OF turn.IH turn.hyps(2), of frame] turn.hyps(3)
  show ?case by auto
qed


lemma twoLayer_start:
  "tileTraversalQueue (startTraversal globeFrame [(0, 0, 0)] twoLayerSurface) = [(0, 0, 0)]"
  by (simp add: startTraversal_def enqueueRoot_def markInsertionPoint_def twoLayerSurface_def
      exampleTile_def isTileVisible_def globeFrame_def columbusFrame_def Let_def)


lemma renderList_contains: "t \<in> selectedTiles (renderListAfterAdding t s)"
proof -
  have "Some (b @ [t]) \<in> set (js_put xs n (Some (b @ [t])))" for b xs n
    by (auto simp: js_put_def set_update_memI)
  then show ?thesis
    unfolding selectedTiles_def renderListAfterAdding_def Let_def
    by (metis (no_types, lifting) UN_I option.simps(5) in_set_conv_decomp)
qed

subsection \<open>Claim about the selection\<close>

text \<open>
  Claim C2. Take a frame that starts in a well-formed tree, any state \<open>s\<close> the breadth-first
  loop passes through, and the tile \<open>t\<close> at the head of the traversal queue. The turn of the
  loop for \<open>t\<close> returns, and: if the screen-space error of \<open>t\<close> is below
  \<open>maxScreenSpaceError\<close>, or else unless \<open>t\<close> lies strictly below \<open>maxLevel\<close> and all its
  children are renderable, \<open>t\<close> is appended to the render list of its ready-texture count
  and nothing is enqueued for traversal; otherwise the render lists stay as they are and
  the visible children are enqueued. So a tile is added to the render list or refined, never
  both, and a tile at \<open>maxLevel\<close> is never refined. Whenever the error is not below the
  threshold and \<open>t\<close> is below \<open>maxLevel\<close>, every child that is not done loading is in the
  load queue afterwards. No tile of the traversal lies beyond \<open>maxLevel\<close>.
\<close>

theorem refinement_rule:
  assumes "wellFormedTree s0" and "traversal env frame s0 s" and "tileTraversalQueue s = t # q"
  shows "\<exists>s'. visitTile env frame t (s\<lparr> tileTraversalQueue := q \<rparr>) = Inr s'
     \<and> (if jsLess (sseOf env frame s t) (maxScreenSpaceError s)
            \<or> \<not> (level t < maxLevel env \<and> allChildrenRenderable s t)
         then tilesToRenderByTextureCount s' = renderListAfterAdding t s
              \<and> tileTraversalQueue s' = q
         else tilesToRenderByTextureCount s' = tilesToRenderByTextureCount s
              \<and> tileTraversalQueue s' =
                  q @ filter (\<lambda>c. isTileVisible frame (tiles s c)) (quadChildren t))
     \<and> (\<not> jsLess (sseOf env frame s t) (maxScreenSpaceError s) \<and> level t < maxLevel env
          \<longrightarrow> (\<forall>c\<in>set (quadChildren t).
                 \<not> doneLoading (tiles s' c) \<longrightarrow> c \<in> set (tileLoadQueue s')))
     \<and> level t \<le> maxLevel env"
proof -
  have inv: "traversalInvariant env s"
    using traversal_invariant[OF assms(1) assms(2)] .
  then have "level t \<le> maxLevel env"
    unfolding traversalInvariant_def using assms(3) by simp
  with visitTile_step[OF inv assms(3), of frame] show ?thesis by blast
qed

text \<open>The theorem at the first turn of the loop on a surface with one renderable root.\<close>

theorem refinement_rule_witness:
  "wellFormedTree twoLayerSurface
   \<and> traversal exampleCollaborators globeFrame twoLayerSurface
       (startTraversal globeFrame [(0, 0, 0)] twoLayerSurface)
   \<and> tileTraversalQueue (startTraversal globeFrame [(0, 0, 0)] twoLayerSurface) = [(0, 0, 0)]
   \<and> (\<exists>s'. visitTile exampleCollaborators globeFrame (0, 0, 0)
              ((startTraversal globeFrame [(0, 0, 0)] twoLayerSurface)\<lparr> tileTraversalQueue := [] \<rparr>)
            = Inr s'
     \<and> (if jsLess (sseOf exampleCollaborators globeFrame
                     (startTraversal globeFrame [(0, 0, 0)] twoLayerSurface) (0, 0, 0))
                  (maxScreenSpaceError (startTraversal globeFrame [(0, 0, 0)] twoLayerSurface))
            \<or> \<not> (level (0, 0, 0) < maxLevel exampleCollaborators
                  \<and> allChildrenRenderable
                      (startTraversal globeFrame [(0, 0, 0)] twoLayerSurface) (0, 0, 0))
         then tilesToRenderByTextureCount s'
                = renderListAfterAdding (0, 0, 0)
                    (startTraversal globeFrame [(0, 0, 0)] twoLayerSurface)
              \<and> tileTraversalQueue s' = []
         else tilesToRenderByTextureCount s'
                = tilesToRenderByTextureCount
                    (startTraversal globeFrame [(0, 0, 0)] twoLayerSurface)
              \<and> tileTraversalQueue s' =
                  [] @ filter (\<lambda>c. isTileVisible globeFrame
                                  (tiles (startTraversal globeFrame [(0, 0, 0)] twoLayerSurface) c))
                         (quadChildren (0, 0, 0)))
     \<and> (\<not> jsLess (sseOf exampleCollaborators globeFrame
                     (startTraversal globeFrame [(0, 0, 0)] twoLayerSurface) (0, 0, 0))
                  (maxScreenSpaceError (startTraversal globeFrame [(0, 0, 0)] twoLayerSurface))
          \<and> level (0, 0, 0) < maxLevel exampleCollaborators
          \<longrightarrow> (\<forall>c\<in>set (quadChildren (0, 0, 0)).
                 \<not> doneLoading (tiles s' c) \<longrightarrow> c \<in> set (tileLoadQueue s')))
     \<and> level (0, 0, 0) \<le> maxLevel exampleCollaborators)"
proof -
  have h1: "wellFormedTree twoLayerSurface"
    by (simp add: wellFormedTree_def twoLayerSurface_def exampleTile_def level_def)
  have h2: "traversal exampleCollaborators globeFrame twoLayerSurface
       (startTraversal globeFrame [(0, 0, 0)] twoLayerSurface)"
    by (rule traversal.start) (simp_all add: twoLayerSurface_def)
  note h3 = twoLayer_start
  note e = refinement_rule[OF h1 h2 h3]
  show ?thesis by (intro conjI h1 h2 h3 e)
qed

subsection \<open>The load pump\<close>

lemma failed_without_ancestor:
  assumes i: "0 \<le> i" "i < int (length (tileImagery (tiles s t)))"
    and f: "state (imageries s (imagery (tileImagery (tiles s t) ! nat i))) = FAILED
            \<or> state (imageries s (imagery (tileImagery (tiles s t) ! nat i))) = INVALID"
    and w: "walkFailedParents (imageries s)
              (parent (imageries s (imagery (tileImagery (tiles s t) ! nat i)))) = Some None"
  shows "imageryIteration env t i s = Some (Inl TypeError)"
proof -
  define im where "im = imagery (tileImagery (tiles s t) ! nat i)"
  have np: "state (imageries s im) \<noteq> PLACEHOLDER" "state (imageries s im) \<noteq> UNLOADED"
    "state (imageries s im) \<noteq> RECEIVED" "state (imageries s im) \<noteq> TEXTURE_LOADED"
    using f by (auto simp: im_def)
  have h: "imageryTransition TEXTURE_LOADED (reprojectTexture env (imageryLayer (imageries s im))) im
             (imageryTransition RECEIVED (createTexture env (imageryLayer (imageries s im))) im
               (imageryTransition UNLOADED (requestImagery env (imageryLayer (imageries s im))) im
                 (imageries s))) = imageries s"
    using np by (simp add: imageryTransition_def)
  show ?thesis
    unfolding imageryIteration_def Let_def im_def[symmetric]
    using i np f w h by (simp add: im_def[symmetric])
qed


lemma walk_live_aux:
  "walkFailedParents H p = Some y \<Longrightarrow>
     (\<forall>a. y = Some a \<longrightarrow> state (H a) \<noteq> FAILED \<and> state (H a) \<noteq> INVALID)"
proof (induction rule: walkFailedParents.raw_induct[rotated -1, consumes 1])
  case (1 walk H p y)
  show ?case
  proof (cases p)
    case None
    with 1(2) show ?thesis by simp
  next
    case (Some r)
    show ?thesis
    proof (cases "state (H r) = FAILED \<or> state (H r) = INVALID")
      case True
      with 1(2) Some have "walk H (parent (H r)) = Some y" by simp
      from 1(1)[OF this] show ?thesis .
    next
      case False
      with 1(2) Some show ?thesis by auto
    qed
  qed
qed

lemma walk_live:
  "walkFailedParents H p = Some (Some a) \<Longrightarrow> state (H a) \<noteq> FAILED \<and> state (H a) \<noteq> INVALID"
  using walk_live_aux by blast

text \<open>
  With an ancestor that has not failed, the entry of a failed imagery is re-associated: the
  ancestor the walk ends at becomes its imagery and gains a reference, and the failed
  imagery is kept in \<^verbatim>\<open>originalImagery\<close>.
\<close>

lemma fallback_to_ancestor:
  assumes i: "0 \<le> i" "i < int (length (tileImagery (tiles s t)))"
    and f: "state (imageries s (imagery (tileImagery (tiles s t) ! nat i))) = FAILED
            \<or> state (imageries s (imagery (tileImagery (tiles s t) ! nat i))) = INVALID"
    and w: "walkFailedParents (imageries s)
              (parent (imageries s (imagery (tileImagery (tiles s t) ! nat i)))) = Some (Some a)"
  shows "\<exists>s'. imageryIteration env t i s
               = Some (Inr (False, state (imageries s a) = READY, s'))
     \<and> imagery (tileImagery (tiles s' t) ! nat i) = a
     \<and> originalImagery (tileImagery (tiles s' t) ! nat i)
         = Some (imagery (tileImagery (tiles s t) ! nat i))
     \<and> referenceCount (imageries s' a) = referenceCount (imageries s a) + 1
     \<and> state (imageries s a) \<noteq> FAILED \<and> state (imageries s a) \<noteq> INVALID"
proof -
  let ?im = "imagery (tileImagery (tiles s t) ! nat i)"
  have np: "state (imageries s ?im) \<noteq> PLACEHOLDER" "state (imageries s ?im) \<noteq> UNLOADED"
    "state (imageries s ?im) \<noteq> RECEIVED" "state (imageries s ?im) \<noteq> TEXTURE_LOADED"
    using f by auto
  have h: "imageryTransition TEXTURE_LOADED (reprojectTexture env (imageryLayer (imageries s ?im))) ?im
             (imageryTransition RECEIVED (createTexture env (imageryLayer (imageries s ?im))) ?im
               (imageryTransition UNLOADED (requestImagery env (imageryLayer (imageries s ?im))) ?im
                 (imageries s))) = imageries s"
    using np by (simp add: imageryTransition_def)
  note live = walk_live[OF w]
  have n: "nat i < length (tileImagery (tiles s t))" using i by simp
  have ni: "\<not> (i < 0 \<or> int (length (tileImagery (tiles s t))) \<le> i)" using i by simp
  obtain r where r: "imageryIteration env t i s = Some (Inr r)"
    unfolding imageryIteration_def Let_def
    using ni np f w h by (simp del: imageryTransition_def)
  show ?thesis
    using r[unfolded imageryIteration_def Let_def] ni np f w h n live
    by (auto simp: addReference_def imageryIteration_def Let_def)
qed

lemma sameFlags_refl: "sameFlags s s"
  by (simp add: sameFlags_def)

lemma sameFlags_trans: "sameFlags s s1 \<Longrightarrow> sameFlags s1 s2 \<Longrightarrow> sameFlags s s2"
  by (simp add: sameFlags_def)

lemma sameFlags_stack:
  "sameFlags s (s\<lparr> tiles := (tiles s)(t := (tiles s t)\<lparr> tileImagery := stack \<rparr>), imageries := H \<rparr>)"
  by (auto simp: sameFlags_def fun_eq_iff)

lemma sameFlags_imageries: "sameFlags s (s\<lparr> imageries := H \<rparr>)"
  by (auto simp: sameFlags_def)

lemma sameFlags_clock: "sameFlags s (s\<lparr> clock := k \<rparr>)"
  by (auto simp: sameFlags_def)

lemma skeletons_sameFlags:
  "sameFlags s (snd (createTileImagerySkeletons env layer t ip s))"
  unfolding createTileImagerySkeletons_def Let_def split_beta snd_conv
  by (rule sameFlags_stack)

lemma skeletons_tileState:
  "tileState (tiles (snd (createTileImagerySkeletons env layer t ip s)) u) = tileState (tiles s u)"
  unfolding createTileImagerySkeletons_def Let_def split_beta snd_conv
  by simp

lemma imageryIteration_flags:
  assumes "imageryIteration env t i s = Some (Inr (ph, d, s'))"
  shows "sameFlags s s' \<and> (\<lambda>u. tileState (tiles s' u)) = (\<lambda>u. tileState (tiles s u))"
proof -
  let ?stack = "tileImagery (tiles s t)"
  let ?im = "imagery (?stack ! nat i)"
  let ?layer = "imageryLayer (imageries s ?im)"
  define s1 where "s1 = (if state (imageries s ?im) = PLACEHOLDER \<and> providerReady (layerTable env ?layer) then
                        (let sA = s\<lparr> imageries :=
                                      (imageries s)(?im := releaseReference (imageries s ?im)) \<rparr>;
                             sB = sA\<lparr> tiles := (tiles sA)(t := (tiles sA t)
                                        \<lparr> tileImagery := fst (js_splice ?stack i 1 []) \<rparr>) \<rparr>
                         in snd (createTileImagerySkeletons env ?layer t (Some (nat i)) sB))
                      else s)"
  have a: "sameFlags s s1"
  proof (cases "state (imageries s ?im) = PLACEHOLDER \<and> providerReady (layerTable env ?layer)")
    case True
    let ?sB = "s\<lparr> imageries := (imageries s)(?im := releaseReference (imageries s ?im)),
                  tiles := (tiles s)(t := (tiles s t)\<lparr> tileImagery := fst (js_splice ?stack i 1 []) \<rparr>) \<rparr>"
    have "sameFlags s ?sB" by (auto simp: sameFlags_def fun_eq_iff)
    from sameFlags_trans[OF this skeletons_sameFlags[of ?sB env ?layer t "Some (nat i)"]]
    show ?thesis using True by (simp add: s1_def Let_def)
  next
    case False
    then show ?thesis by (auto simp add: s1_def sameFlags_refl)
  qed
  have b: "(\<lambda>u. tileState (tiles s1 u)) = (\<lambda>u. tileState (tiles s u))"
    by (auto simp add: s1_def Let_def skeletons_tileState fun_eq_iff)
  define H4 where "H4 = imageryTransition TEXTURE_LOADED (reprojectTexture env ?layer) ?im
                          (imageryTransition RECEIVED (createTexture env ?layer) ?im
                            (imageryTransition UNLOADED (requestImagery env ?layer) ?im (imageries s1)))"
  define w where "w = (if state (H4 ?im) = FAILED \<or> state (H4 ?im) = INVALID
                        then walkFailedParents H4 (parent (H4 ?im)) else Some (Some ?im))"
  from assms have "\<exists>stack H. s' = s1\<lparr> tiles := (tiles s1)(t := (tiles s1 t)\<lparr> tileImagery := stack \<rparr>),
                                      imageries := H \<rparr>"
    unfolding imageryIteration_def Let_def s1_def[symmetric, unfolded Let_def] H4_def[symmetric]
      w_def[symmetric]
    apply (cases "i < 0 \<or> int (length (tileImagery (tiles s t))) \<le> i")
     apply (simp del: imageryTransition_def)
    apply (cases w)
     apply (simp del: imageryTransition_def)
    subgoal for y
      apply (cases y)
       apply (simp del: imageryTransition_def)
      apply (simp only: if_False option.case sum.inject option.inject prod.inject)
      apply (elim conjE)
      apply (rule exI, rule exI)
      apply (erule sym)
      done
    done
  then obtain stack H where
    e: "s' = s1\<lparr> tiles := (tiles s1)(t := (tiles s1 t)\<lparr> tileImagery := stack \<rparr>), imageries := H \<rparr>"
    by blast
  have c: "sameFlags s1 s' \<and> (\<lambda>u. tileState (tiles s' u)) = (\<lambda>u. tileState (tiles s1 u))"
    unfolding e using sameFlags_stack[where s=s1 and t=t and stack=stack and H=H]
    by (simp add: fun_eq_iff)
  show ?thesis
    using b c sameFlags_trans[OF a c[THEN conjunct1]] by simp
qed

lemma loopStep_trans:
  assumes a: "loopStep t l1 l2" and b: "loopStep t l2 l3"
  shows "loopStep t l1 l3"
proof -
  from a have a1: "sameFlags (loopSurface l1) (loopSurface l2)"
    and a2: "(\<lambda>u. tileState (tiles (loopSurface l2) u)) = (\<lambda>u. tileState (tiles (loopSurface l1) u))"
    and a3: "\<forall>D. loopDoneLoading l1 = (D \<and> list_all id (visits l1))
             \<longrightarrow> loopDoneLoading l2 = (D \<and> list_all id (visits l2))"
    unfolding loopStep_def by blast+
  from b have b1: "sameFlags (loopSurface l2) (loopSurface l3)"
    and b2: "(\<lambda>u. tileState (tiles (loopSurface l3) u)) = (\<lambda>u. tileState (tiles (loopSurface l2) u))"
    and b3: "\<forall>D. loopDoneLoading l2 = (D \<and> list_all id (visits l2))
             \<longrightarrow> loopDoneLoading l3 = (D \<and> list_all id (visits l3))"
    unfolding loopStep_def by blast+
  have c3: "\<forall>D. loopDoneLoading l1 = (D \<and> list_all id (visits l1))
             \<longrightarrow> loopDoneLoading l3 = (D \<and> list_all id (visits l3))"
    using a3 b3 by blast
  show ?thesis
    unfolding loopStep_def
    apply (intro conjI)
    subgoal by (rule sameFlags_trans[OF a1 b1])
    subgoal using a2 b2 by simp
    subgoal by (rule c3)
    done
qed

lemma imageryLoop_result_aux:
  "imageryLoop env endTime t l = Some y \<Longrightarrow> (\<forall>l'. y = Inr l' \<longrightarrow> loopStep t l l')"
proof (induction rule: imageryLoop.raw_induct[rotated -1, consumes 1])
  case (1 loop env endTime t l y)
  let ?s0 = "(loopSurface l)\<lparr> clock := clock (loopSurface l) + 1 \<rparr>"
  have f0: "sameFlags (loopSurface l) ?s0" by (rule sameFlags_clock)
  have dn: "dateNow env (loopSurface l) = (now env (clock (loopSurface l)), ?s0)"
    by (simp add: dateNow_def)
  note body = 1(2)[unfolded dn prod.case Let_def]
  show ?case
  proof (cases "now env (clock (loopSurface l)) < endTime \<and> loopIndex l < loopLen l")
    case False
    with body have y: "y = Inr (l\<lparr> loopSurface := ?s0 \<rparr>)"
      by simp
    have "loopStep t l (l\<lparr> loopSurface := ?s0 \<rparr>)"
      unfolding loopStep_def using f0 by simp
    then show ?thesis using y by simp
  next
    case True
    show ?thesis
    proof (cases "imageryIteration env t (loopIndex l) ?s0")
      case None
      with body True show ?thesis by simp
    next
      case (Some r)
      show ?thesis
      proof (cases r)
        case (Inl e)
        with body True Some show ?thesis by auto
      next
        case (Inr v)
        obtain ph d s1 where v: "v = (ph, d, s1)" by (cases v)
        define l2 where "l2 = \<lparr> loopIndex = (if ph then loopIndex l - 1 else loopIndex l) + 1,
                    loopLen = (if ph then int (length (tileImagery (tiles s1 t))) else loopLen l),
                    loopDoneLoading = (loopDoneLoading l \<and> d),
                    visits = visits l @ [d],
                    loopSurface = s1 \<rparr>"
        have it: "imageryIteration env t (loopIndex l) ?s0 = Some (Inr (ph, d, s1))"
          using Some Inr v by simp
        from body True it have "loop env endTime t l2 = Some y"
          by (simp add: l2_def)
        from 1(1)[OF this] have ih: "\<forall>l'. y = Inr l' \<longrightarrow> loopStep t l2 l'" .
        note fl = imageryIteration_flags[OF it]
        have s1f: "sameFlags (loopSurface l) s1"
          by (rule sameFlags_trans[OF f0 fl[THEN conjunct1]])
        have s1t: "(\<lambda>u. tileState (tiles s1 u)) = (\<lambda>u. tileState (tiles (loopSurface l) u))"
          using fl[THEN conjunct2] by simp
        have st: "loopStep t l l2"
          unfolding loopStep_def l2_def using s1f s1t by auto
        show ?thesis
          using ih loopStep_trans[OF st] by blast
      qed
    qed
  qed
qed


lemma imageryLoop_result:
  "imageryLoop env endTime t l = Some (Inr l') \<Longrightarrow> loopStep t l l'"
  using imageryLoop_result_aux by blast

lemma fold_sameFlags:
  assumes "\<And>x s. sameFlags s (f x s)"
  shows "sameFlags s (fold f xs s)"
proof (induction xs arbitrary: s)
  case Nil
  show ?case by (simp add: sameFlags_refl)
next
  case (Cons x xs)
  show ?case
    using sameFlags_trans[OF assms[of s x] Cons[of "f x s"]] by simp
qed

lemma terrainTransition_sameFlags: "sameFlags s (terrainTransition from step t s)"
  by (auto simp: terrainTransition_def setTileState_def terrainStep_def sameFlags_def Let_def
      fun_eq_iff)

lemma evictTile_sameFlags: "sameFlags s (evictTile u s)"
  by (auto simp: evictTile_def sameFlags_def fun_eq_iff)

lemma markTileRendered_sameFlags: "sameFlags s (markTileRendered t s)"
  by (simp add: sameFlags_def)

lemma trimTiles_sameFlags: "sameFlags s (trimTiles env k t s)"
  unfolding trimTiles_def by (rule fold_sameFlags) (rule evictTile_sameFlags)

lemma transitionTerrain_sameFlags: "sameFlags s (transitionTerrain env t s)"
proof -
  define sA where "sA = terrainTransition T_UNLOADED (requestTileGeometry env) t s"
  define sB where "sB = fold (\<lambda>layer s'. snd (createTileImagerySkeletons env layer t None s'))
                          (imageryLayerCollection sA)
                          (trimTiles env 100 t (markTileRendered t sA))"
  define s1 where "s1 = (if tileState (tiles s t) = T_UNLOADED then
                  (if tileState (tiles sA t) \<noteq> T_UNLOADED then sB else sA)
                else s)"
  have a: "sameFlags s sA" unfolding sA_def by (rule terrainTransition_sameFlags)
  have "sameFlags (trimTiles env 100 t (markTileRendered t sA)) sB"
    unfolding sB_def by (rule fold_sameFlags) (rule skeletons_sameFlags)
  then have b: "sameFlags s sB"
    using a markTileRendered_sameFlags[of sA t]
      trimTiles_sameFlags[of "markTileRendered t sA" env 100 t] sameFlags_trans by blast
  have c: "sameFlags s s1" using a b by (simp add: s1_def sameFlags_refl)
  have e: "transitionTerrain env t s =
             terrainTransition T_TRANSFORMED (createResources env) t
               (terrainTransition T_RECEIVED (transformGeometry env) t s1)"
    by (simp add: transitionTerrain_def Let_def s1_def sA_def sB_def)
  show ?thesis
    unfolding e
    using c terrainTransition_sameFlags sameFlags_trans by blast
qed





subsection \<open>Claims about the load pump\<close>

text \<open>
  Claim C1 on the code: the tile in the load queue has one entry whose imagery has failed
  and has no parent. The walk over the parents ends with \<^verbatim>\<open>undefined\<close>, the call
  \<^verbatim>\<open>parent.addReference()\<close> raises, and the exception leaves \<^verbatim>\<open>processTileLoadQueue\<close>.
\<close>

theorem failed_root_imagery_raises:
  "raised (processTileLoadQueue exampleCollaborators True failedSurface) = Some TypeError"
proof -
  define s3 where "s3 = failedSurface\<lparr> clock := 3 \<rparr>"
  have st: "tileImagery (tiles s3 (0, 0, 0)) = [skeleton 5]" "imageries s3 = failedHeap"
    by (simp_all add: s3_def failedSurface_def exampleTile_def)
  have it: "imageryIteration exampleCollaborators (0, 0, 0) 0 s3 = Some (Inl TypeError)"
    by (rule failed_without_ancestor)
       (simp_all add: st failedHeap_def skeleton_def walkFailedParents.simps)
  have lp: "imageryLoop exampleCollaborators 10 (0, 0, 0)
              \<lparr> loopIndex = 0, loopLen = 1, loopDoneLoading = True, visits = [],
                loopSurface = failedSurface\<lparr> clock := 2 \<rparr> \<rparr> = Some (Inl TypeError)"
    apply (subst imageryLoop.simps)
    using it by (simp add: dateNow_def exampleCollaborators_def s3_def)
  have tt: "transitionTerrain exampleCollaborators (0, 0, 0) (failedSurface\<lparr> clock := 2 \<rparr>)
              = failedSurface\<lparr> clock := 2 \<rparr>"
    by (simp add: transitionTerrain_def terrainTransition_def failedSurface_def exampleTile_def Let_def)
  have pt: "processTile exampleCollaborators 10 (0, 0, 0) (failedSurface\<lparr> clock := 2 \<rparr>)
              = Some (Inl TypeError)"
    unfolding processTile_def Let_def tt
    using lp by (simp add: failedSurface_def exampleTile_def)
  have c0: "clock failedSurface = 0" "tileLoadQueue failedSurface = [(0, 0, 0)]"
    by (simp_all add: failedSurface_def twoLayerSurface_def)
  have n: "now exampleCollaborators = int" by (simp add: exampleCollaborators_def)
  show ?thesis
    unfolding processTileLoadQueue_def Let_def raised_def
    using pt[unfolded numeral_2_eq_2] by (simp add: dateNow_def c0 n)
qed




subsection \<open>The invariant of the load queue\<close>

lemma queueInvariant_sameFlags:
  assumes f: "sameFlags s s'" and q: "queueInvariant s"
  shows "queueInvariant s'"
proof -
  from f have a: "tileLoadQueue s' = tileLoadQueue s"
    and b: "(\<lambda>u. doneLoading (tiles s' u)) = (\<lambda>u. doneLoading (tiles s u))"
    unfolding sameFlags_def by blast+
  have "\<And>u. doneLoading (tiles s' u) = doneLoading (tiles s u)"
    using fun_cong[OF b] by simp
  then show ?thesis
    using q unfolding queueInvariant_def a by simp
qed

lemma queueInvariant_queueTileLoad:
  assumes "queueInvariant s" "\<not> doneLoading (tiles s t)"
  shows "queueInvariant (queueTileLoad t s)"
  using assms unfolding queueInvariant_def
  by (auto simp: queueTileLoad_queue split: if_splits)

lemma queueInvariant_queueChildLoad:
  "queueInvariant (snd acc) \<Longrightarrow> queueInvariant (snd (queueChildLoad c acc))"
proof -
  assume a: "queueInvariant (snd acc)"
  obtain b s where acc: "acc = (b, s)" by (cases acc)
  have m: "queueInvariant (markTileRendered c s)"
    using a acc by (simp add: queueInvariant_def)
  show ?thesis
    using m queueInvariant_queueTileLoad[of "markTileRendered c s" c]
    by (simp add: acc queueChildLoad_def Let_def)
qed

lemma queueInvariant_fold_queueChildLoad:
  "queueInvariant (snd acc) \<Longrightarrow> queueInvariant (snd (fold queueChildLoad cs acc))"
  by (induction cs arbitrary: acc) (simp_all add: queueInvariant_queueChildLoad)

lemma getChildren_doneLoading:
  "doneLoading (tiles (snd (getChildren t s)) u) \<Longrightarrow> doneLoading (tiles s u)"
  by (cases "children (tiles s t)")
     (auto simp: getChildren_def Let_def fold_newTile newTile_def split: if_splits)

lemma getChildren_queue:
  "tileLoadQueue (snd (getChildren t s)) = tileLoadQueue s"
  by (cases "children (tiles s t)") (simp_all add: getChildren_def Let_def)

lemma queueInvariant_getChildren:
  "queueInvariant s \<Longrightarrow> queueInvariant (snd (getChildren t s))"
  unfolding queueInvariant_def getChildren_queue
  using getChildren_doneLoading by blast

lemma queueInvariant_queueChildren:
  "queueInvariant s \<Longrightarrow>
     queueInvariant (snd (queueChildrenLoadAndDetermineIfChildrenAreAllRenderable env t s))"
  using queueInvariant_fold_queueChildLoad[of "(True, snd (getChildren t s))" "fst (getChildren t s)"]
        queueInvariant_getChildren[of s t]
  by (simp add: queueChildrenLoadAndDetermineIfChildrenAreAllRenderable_def split_beta)

lemma addTileToRenderList_sameFlags: "sameFlags s (addTileToRenderList t s)"
  by (simp add: sameFlags_def addTileToRenderList_fields)

lemma fold_enqueueIfVisible_sameFlags: "sameFlags s (fold (enqueueIfVisible frame) cs s)"
  using fold_enqueueIfVisible[of frame cs s] by (simp add: sameFlags_def)

lemma queueInvariant_visitTile:
  assumes q: "queueInvariant s" and v: "visitTile env frame t s = Inr s'"
  shows "queueInvariant s'"
proof -
  define s3 where "s3 = (let s2 = markTileRendered t (s\<lparr> tilesVisited := tilesVisited s + 1 \<rparr>)
                         in if maxDepth s2 < level t then s2\<lparr> maxDepth := level t \<rparr> else s2)"
  obtain d where d: "snd (screenSpaceError env frame t (tiles s3 t)) = (tiles s3 t)\<lparr> distance := d \<rparr>"
    using sse_tile by blast
  define s4 where "s4 = s3\<lparr> tiles := (tiles s3)(t := snd (screenSpaceError env frame t (tiles s3 t))) \<rparr>"
  have f3: "sameFlags s s3"
    by (simp add: s3_def Let_def sameFlags_def markTileRendered_def)
  have f4: "sameFlags s3 s4"
    unfolding s4_def d by (auto simp: sameFlags_def fun_eq_iff)
  have q4: "queueInvariant s4"
    using queueInvariant_sameFlags[OF sameFlags_trans[OF f3 f4] q] .
  obtain b s5 where c: "queueChildrenLoadAndDetermineIfChildrenAreAllRenderable env t s4 = (b, s5)"
    by (cases "queueChildrenLoadAndDetermineIfChildrenAreAllRenderable env t s4")
  have q5: "queueInvariant s5"
    using queueInvariant_queueChildren[OF q4, of env t] c by simp
  have v': "(if jsLess (fst (screenSpaceError env frame t (tiles s3 t))) (maxScreenSpaceError s4)
             then Inr (addTileToRenderList t s4)
             else if b then (case children (tiles s5 t) of
                   None \<Rightarrow> Inl TypeError
                 | Some cs \<Rightarrow> Inr (fold (enqueueIfVisible frame) cs s5))
             else Inr (addTileToRenderList t s5)) = Inr s'"
    using v[unfolded visitTile_def Let_def split_beta s3_def[unfolded Let_def, symmetric]
        s4_def[symmetric], unfolded c fst_conv snd_conv]
    by (cases b; cases "jsLess (fst (screenSpaceError env frame t (tiles s3 t))) (maxScreenSpaceError s4)")
       simp_all
  show ?thesis
  proof (cases "jsLess (fst (screenSpaceError env frame t (tiles s3 t))) (maxScreenSpaceError s4)")
    case True
    with v' have "s' = addTileToRenderList t s4" by simp
    then show ?thesis
      using queueInvariant_sameFlags[OF addTileToRenderList_sameFlags q4] by simp
  next
    case False
    show ?thesis
    proof (cases b)
      case True
      with v' False obtain cs where "s' = fold (enqueueIfVisible frame) cs s5"
        by (auto split: option.splits)
      then show ?thesis
        using queueInvariant_sameFlags[OF fold_enqueueIfVisible_sameFlags q5] by simp
    next
      case b: False
      with v' False have "s' = addTileToRenderList t s5" by simp
      then show ?thesis
        using queueInvariant_sameFlags[OF addTileToRenderList_sameFlags q5] by simp
    qed
  qed
qed

lemma queueInvariant_traverse_aux:
  "traverseTiles env frame s = Some y \<Longrightarrow>
     (\<forall>s'. y = Inr s' \<longrightarrow> queueInvariant s \<longrightarrow> queueInvariant s')"
proof (induction rule: traverseTiles.raw_induct[rotated -1, consumes 1])
  case (1 traverse env frame s y)
  show ?case
  proof (cases "tileTraversalQueue s")
    case Nil
    with 1(2) show ?thesis by auto
  next
    case (Cons t q)
    have f: "sameFlags s (s\<lparr> tileTraversalQueue := q \<rparr>)" by (simp add: sameFlags_def)
    show ?thesis
    proof (cases "visitTile env frame t (s\<lparr> tileTraversalQueue := q \<rparr>)")
      case (Inl e)
      with 1(2) Cons show ?thesis by auto
    next
      case (Inr s1)
      with 1(2) Cons have "traverse env frame s1 = Some y" by simp
      from 1(1)[OF this] have ih: "\<forall>s'. y = Inr s' \<longrightarrow> queueInvariant s1 \<longrightarrow> queueInvariant s'" .
      show ?thesis
        using ih queueInvariant_visitTile[OF queueInvariant_sameFlags[OF f] Inr] by blast
    qed
  qed
qed

lemma queueInvariant_enqueueRoot:
  assumes "queueInvariant s"
  shows "queueInvariant (enqueueRoot frame t s)"
proof -
  define s1 where "s1 = (if \<not> doneLoading (tiles s t) then queueTileLoad t s else s)"
  have q1: "queueInvariant s1"
    using assms queueInvariant_queueTileLoad[of s t] by (simp add: s1_def)
  have "sameFlags s1 (enqueueRoot frame t s)"
    by (simp add: enqueueRoot_def Let_def s1_def[symmetric] sameFlags_def)
  from queueInvariant_sameFlags[OF this q1] show ?thesis .
qed

lemma queueInvariant_fold_enqueueRoot:
  "queueInvariant s \<Longrightarrow> queueInvariant (fold (enqueueRoot frame) roots s)"
  by (induction roots arbitrary: s) (simp_all add: queueInvariant_enqueueRoot)

lemma queueInvariant_startTraversal:
  assumes "queueInvariant s"
  shows "queueInvariant (startTraversal frame roots s)"
proof -
  have "sameFlags s (markInsertionPoint
          (s\<lparr> tilesToRenderByTextureCount :=
                 map (map_option (\<lambda>_. [])) (tilesToRenderByTextureCount s),
               tileTraversalQueue := [],
               maxDepth := 0, tilesVisited := 0, tilesCulled := 0, tilesRendered := 0,
               texturesRendered := 0 \<rparr>))"
    by (simp add: sameFlags_def markInsertionPoint_def)
  from queueInvariant_sameFlags[OF this assms] show ?thesis
    unfolding startTraversal_def by (rule queueInvariant_fold_enqueueRoot)
qed

lemma queueInvariant_select:
  assumes q: "queueInvariant s" and r: "selectTilesForRendering env frame s = Some (Inr s')"
  shows "queueInvariant s'"
proof (cases "suspendLodUpdate s")
  case True
  with r q show ?thesis by (simp add: selectTilesForRendering_def)
next
  case False
  show ?thesis
  proof (cases "private_levelZeroTiles s")
    case None
    with r False have "s' = s\<lparr> tilesToRenderByTextureCount :=
                             map (map_option (\<lambda>_. [])) (tilesToRenderByTextureCount s) \<rparr>"
      by (simp add: selectTilesForRendering_def)
    then show ?thesis using q by (simp add: queueInvariant_def)
  next
    case (Some roots)
    with r False have "traverseTiles env frame (startTraversal frame roots s) = Some (Inr s')"
      by (simp add: selectTilesForRendering_def)
    from queueInvariant_traverse_aux[OF this] queueInvariant_startTraversal[OF q]
    show ?thesis by blast
  qed
qed


lemma queueInvariant_cong:
  assumes a: "tileLoadQueue s' = tileLoadQueue s"
    and b: "\<And>u. doneLoading (tiles s' u) \<Longrightarrow> doneLoading (tiles s u)"
    and c: "queueInvariant s"
  shows "queueInvariant s'"
  unfolding queueInvariant_def
proof
  fix t assume "t \<in> set (tileLoadQueue s')"
  then have "\<not> doneLoading (tiles s t)"
    using c a unfolding queueInvariant_def by simp
  then show "\<not> doneLoading (tiles s' t)" using b[of t] by blast
qed

lemma queueInvariant_fold:
  assumes "\<And>x s. queueInvariant s \<Longrightarrow> queueInvariant (f x s)"
  shows "queueInvariant s \<Longrightarrow> queueInvariant (fold f xs s)"
proof (induction xs arbitrary: s)
  case Nil
  then show ?case by simp
next
  case (Cons x xs)
  have "queueInvariant (fold f xs (f x s))"
    by (rule Cons.IH[OF assms[OF Cons.prems]])
  then show ?case by simp
qed

lemma processTile_flags:
  assumes "processTile env endTime t s = Some (Inr (l, s'))"
  shows "s' = completeTile t l \<and> sameFlags s (loopSurface l)"
proof -
  define s3 where "s3 = transitionTerrain env t s"
  define l0 where "l0 = \<lparr> loopIndex = 0, loopLen = int (length (tileImagery (tiles s3 t))),
                  loopDoneLoading = (tileState (tiles s3 t) = T_READY), visits = [],
                  loopSurface = s3 \<rparr>"
  from assms have lp: "imageryLoop env endTime t l0 = Some (Inr l)" and s': "s' = completeTile t l"
    unfolding processTile_def Let_def s3_def[symmetric] l0_def[symmetric]
    by (auto split: option.splits sum.splits)
  have f3: "sameFlags s s3" unfolding s3_def by (rule transitionTerrain_sameFlags)
  from imageryLoop_result[OF lp] have fl: "sameFlags s3 (loopSurface l)"
    unfolding loopStep_def by (simp add: l0_def)
  show ?thesis using s' sameFlags_trans[OF f3 fl] by simp
qed

lemma queueInvariant_completeTile:
  assumes "queueInvariant (loopSurface l)"
  shows "queueInvariant (completeTile t l)"
  using assms unfolding queueInvariant_def completeTile_def Let_def loadQueueRemove_def
  by auto

lemma queueInvariant_processTile:
  assumes q: "queueInvariant s" and p: "processTile env endTime t s = Some (Inr (l, s'))"
  shows "queueInvariant s'"
  using processTile_flags[OF p] queueInvariant_completeTile[OF queueInvariant_sameFlags[OF _ q]]
  by simp

lemma dateNow_sameFlags: "sameFlags s (snd (dateNow env s))"
  by (simp add: dateNow_def sameFlags_def)

lemma queueInvariant_pumpTiles:
  "queueInvariant s \<Longrightarrow> pumpTiles env k endTime ts s = Some (Inr s') \<Longrightarrow> queueInvariant s'"
proof (induction ts arbitrary: s)
  case Nil
  then show ?case
    using queueInvariant_sameFlags[OF dateNow_sameFlags[of s env]] by simp
next
  case (Cons t ts)
  define s0 where "s0 = s\<lparr> clock := clock s + 1 \<rparr>"
  define time where "time = now env (clock s)"
  have q0: "queueInvariant s0"
    using Cons.prems(1) by (simp add: s0_def queueInvariant_def)
  have dn: "dateNow env s = (time, s0)" by (simp add: s0_def time_def dateNow_def)
  note body = Cons.prems(2)[unfolded pumpTiles.simps Let_def dn prod.case]
  show ?case
  proof (cases "time < endTime")
    case False
    with body have "s' = s0" by simp
    with q0 show ?thesis by simp
  next
    case True
    show ?thesis
    proof (cases "processTile env endTime t s0")
      case None
      with body True show ?thesis by simp
    next
      case (Some r)
      show ?thesis
      proof (cases r)
        case (Inl e)
        with body True Some show ?thesis by simp
      next
        case (Inr v)
        obtain l s1 where v: "v = (l, s1)" by (cases v)
        have p: "processTile env endTime t s0 = Some (Inr (l, s1))"
          using Some Inr v by simp
        have q1: "queueInvariant s1" using queueInvariant_processTile[OF q0 p] .
        show ?thesis
        proof (cases "loopIndex l = loopLen l \<and> loopDoneLoading l \<and> \<not> k")
          case True
          with body \<open>time < endTime\<close> p have "s' = snd (dateNow env s1)" by simp
          then show ?thesis
            using queueInvariant_sameFlags[OF dateNow_sameFlags q1] by simp
        next
          case False
          with body \<open>time < endTime\<close> p
          have "pumpTiles env k endTime ts s1 = Some (Inr s')" by auto
          from Cons.IH[OF q1 this] show ?thesis .
        qed
      qed
    qed
  qed
qed

lemma queueInvariant_pump:
  assumes q: "queueInvariant s" and p: "processTileLoadQueue env k s = Some (Inr s')"
  shows "queueInvariant s'"
proof -
  define s0 where "s0 = snd (dateNow env s)"
  have q0: "queueInvariant s0"
    unfolding s0_def using queueInvariant_sameFlags[OF dateNow_sameFlags q] .
  from p have "pumpTiles env k (fst (dateNow env s) + 10) (tileLoadQueue s0) s0 = Some (Inr s')"
    by (simp add: processTileLoadQueue_def Let_def split_beta s0_def)
  from queueInvariant_pumpTiles[OF q0 this] show ?thesis .
qed

lemma queueInvariant_update:
  assumes q: "queueInvariant s"
    and u: "update env k frame m cb (s, a) = Some (Inr (s', a'))"
  shows "queueInvariant s'"
proof -
  from u obtain s1 where s1: "selectTilesForRendering env frame s = Some (Inr s1)"
    by (auto simp: update_def split: option.splits sum.splits)
  from u s1 obtain s2 where s2: "processTileLoadQueue env k s1 = Some (Inr s2)"
    by (auto simp: update_def split: option.splits sum.splits)
  have q2: "queueInvariant s2"
    using queueInvariant_pump[OF queueInvariant_select[OF q s1] s2] .
  from u s1 s2 have "sameFlags s2 s'"
    by (auto simp: update_def Let_def sameFlags_def split: option.splits sum.splits if_splits)
  from queueInvariant_sameFlags[OF this q2] show ?thesis .
qed

lemma queueInvariant_onLayerMoved:
  "queueInvariant s \<Longrightarrow> queueInvariant (onLayerMoved layer newIndex oldIndex s)"
proof (cases "private_levelZeroTiles s")
  case None
  assume "queueInvariant s"
  with None show ?thesis by (simp add: onLayerMoved_def)
next
  case (Some roots)
  assume q: "queueInvariant s"
  show ?thesis
    unfolding onLayerMoved_def Some option.case Let_def
    apply (rule queueInvariant_fold[OF _ q])
    apply (erule queueInvariant_cong[rotated 2])
     apply simp
    apply (simp split: if_splits)
    done
qed

lemma queueInvariant_onLayerRemoved:
  "queueInvariant s \<Longrightarrow> queueInvariant (onLayerRemoved layer index s)"
proof (cases "private_levelZeroTiles s")
  case None
  assume "queueInvariant s"
  with None show ?thesis by (simp add: onLayerRemoved_def)
next
  case (Some roots)
  assume q: "queueInvariant s"
  show ?thesis
    unfolding onLayerRemoved_def Some option.case
    apply (rule queueInvariant_fold[OF _ q])
    apply (erule queueInvariant_cong[rotated 2])
     apply (simp add: Let_def split_beta)
    apply (simp add: Let_def split_beta split: if_splits)
    done
qed

lemma queueInvariant_onLayerAdded:
  "queueInvariant s \<Longrightarrow> queueInvariant (onLayerAdded env layer index s)"
proof (cases "private_levelZeroTiles s")
  case None
  assume "queueInvariant s"
  with None show ?thesis by (simp add: onLayerAdded_def)
next
  case (Some roots)
  assume q: "queueInvariant s"
  have step: "\<And>t s. queueInvariant s \<Longrightarrow> queueInvariant
          (let (created, s1) = createTileImagerySkeletons env layer t None s;
                       s2 = (if created
                             then s1\<lparr> tiles := (tiles s1)(t := (tiles s1 t)\<lparr> doneLoading := False \<rparr>) \<rparr>
                             else s1)
                   in case layerAt (imageryLayerCollection s0) (index + 1) of
                        None \<Rightarrow> s2
                      | Some n \<Rightarrow>
                          s2\<lparr> tiles := (tiles s2)(t := (tiles s2 t)
                                \<lparr> tileImagery :=
                                    moveTileImageryObjects (imageries s2)
                                      (tileImagery (tiles s2 t)) layer (Some n) \<rparr>) \<rparr>)" for s0
  proof -
    fix t s assume qs: "queueInvariant s"
    define s1 where "s1 = snd (createTileImagerySkeletons env layer t None s)"
    have q1: "queueInvariant s1"
      unfolding s1_def using queueInvariant_sameFlags[OF skeletons_sameFlags qs] .
    define s2 where "s2 = (if fst (createTileImagerySkeletons env layer t None s)
                             then s1\<lparr> tiles := (tiles s1)(t := (tiles s1 t)\<lparr> doneLoading := False \<rparr>) \<rparr>
                             else s1)"
    have q2: "queueInvariant s2"
      apply (rule queueInvariant_cong[OF _ _ q1])
       apply (simp add: s2_def)
      apply (simp add: s2_def split: if_splits)
      done
    have q3: "queueInvariant (case layerAt (imageryLayerCollection s0) (index + 1) of
                        None \<Rightarrow> s2
                      | Some n \<Rightarrow>
                          s2\<lparr> tiles := (tiles s2)(t := (tiles s2 t)
                                \<lparr> tileImagery :=
                                    moveTileImageryObjects (imageries s2)
                                      (tileImagery (tiles s2 t)) layer (Some n) \<rparr>) \<rparr>)"
      apply (rule queueInvariant_cong[OF _ _ q2])
       apply (simp split: option.splits)
      apply (simp split: option.splits if_splits)
      done
    show "queueInvariant
          (let (created, s1) = createTileImagerySkeletons env layer t None s;
                       s2 = (if created
                             then s1\<lparr> tiles := (tiles s1)(t := (tiles s1 t)\<lparr> doneLoading := False \<rparr>) \<rparr>
                             else s1)
                   in case layerAt (imageryLayerCollection s0) (index + 1) of
                        None \<Rightarrow> s2
                      | Some n \<Rightarrow>
                          s2\<lparr> tiles := (tiles s2)(t := (tiles s2 t)
                                \<lparr> tileImagery :=
                                    moveTileImageryObjects (imageries s2)
                                      (tileImagery (tiles s2 t)) layer (Some n) \<rparr>) \<rparr>)"
      using q3 unfolding Let_def split_beta s2_def s1_def .
  qed
  show ?thesis
    unfolding onLayerAdded_def Some option.case
    unfolding Let_def[of "layerAt (imageryLayerCollection s) (index + 1)"]
    by (rule queueInvariant_fold[OF step q])
qed

lemma queueInvariant_constructed:
  "CentralBodySurface description H = Inr s \<Longrightarrow> queueInvariant s"
  by (auto simp: CentralBodySurface_def queueInvariant_def split: option.splits)

lemma reachable_queueInvariant: "reachable env s \<Longrightarrow> queueInvariant s"
proof (induction rule: reachable.induct)
  case (constructed description H s)
  then show ?case using queueInvariant_constructed by blast
next
  case (updated s removedKeepsNext frame maxTextures centralBodyUniformMap a s' a')
  then show ?case using queueInvariant_update by blast
next
  case (layerAdded s layer index)
  then show ?case by (simp add: queueInvariant_onLayerAdded)
next
  case (layerRemoved s layer index)
  then show ?case by (simp add: queueInvariant_onLayerRemoved)
next
  case (layerMoved s layer newIndex oldIndex)
  then show ?case by (simp add: queueInvariant_onLayerMoved)
next
  case (outside s s')
  then show ?case using queueInvariant_sameFlags by blast
qed


end
